theory Spec2Isabelle
  imports Main "HOL-Library.Sublist" "HOL-Library.Word"
begin

section \<open>Pattern matcher (package search: BoyerMoore)\<close>

text \<open>
  Go strings are scanned as rune sequences (\<open>[]rune(s)\<close>); the matcher only compares
  runes for equality and uses them as map keys, so the rune type is a type parameter
  \<open>'r\<close>, and the pattern and the text are given by their rune sequences.
  \<open>strings.ToLower\<close> maps a string rune by rune; the rune map is the parameter \<open>lower\<close>.  Go's \<open>int\<close> indices are modelled as \<open>int\<close>: every index the scan computes is
  bounded by twice the text length, so no machine overflow occurs there.
  A value \<open>None\<close> of an \<open>option\<close> result stands for a call that does not return a value
  (an index-out-of-range panic, or a loop that never ends).
\<close>

record 'r BoyerMoore =
  pattern :: "'r list"
  caseSensitive :: bool
  badCharTable :: "'r \<rightharpoonup> int"

text \<open>\<open>for i, char := range patternRunes { bm.badCharTable[char] = patternLen - i - 1 }\<close>\<close>

fun buildBadCharTable_loop :: "int \<Rightarrow> int \<Rightarrow> 'r list \<Rightarrow> ('r \<rightharpoonup> int) \<Rightarrow> ('r \<rightharpoonup> int)" where
  "buildBadCharTable_loop patternLen i [] tbl = tbl"
| "buildBadCharTable_loop patternLen i (char # rest) tbl =
     buildBadCharTable_loop patternLen (i + 1) rest (tbl(char \<mapsto> patternLen - i - 1))"

definition buildBadCharTable :: "'r BoyerMoore \<Rightarrow> 'r BoyerMoore" where
  "buildBadCharTable bm =
     bm\<lparr>badCharTable :=
          buildBadCharTable_loop (int (length (pattern bm))) 0 (pattern bm) (badCharTable bm)\<rparr>"

definition NewBoyerMoore :: "('r \<Rightarrow> 'r) \<Rightarrow> 'r list \<Rightarrow> bool \<Rightarrow> 'r BoyerMoore" where
  "NewBoyerMoore lower pat cs =
     buildBadCharTable
       \<lparr>pattern = (if cs then pat else map lower pat), caseSensitive = cs,
        badCharTable = Map.empty\<rparr>"

definition getBadCharShift :: "'r BoyerMoore \<Rightarrow> 'r \<Rightarrow> int" where
  "getBadCharShift bm char =
     (case badCharTable bm char of Some shift \<Rightarrow> shift
      | None \<Rightarrow> int (length (pattern bm)))"

text \<open>Slice indexing \<open>xs[i]\<close>: out of range is a panic.\<close>

definition rune_at :: "'r list \<Rightarrow> int \<Rightarrow> 'r option" where
  "rune_at xs i = (if 0 \<le> i \<and> i < int (length xs) then Some (xs ! nat i) else None)"

text \<open>The inner loop \<open>for j >= 0 && textRunes[k] == patternRunes[j] { j--; k-- }\<close>;
  it returns the final \<open>(j, k)\<close>.\<close>

function compare_loop :: "'r list \<Rightarrow> 'r list \<Rightarrow> int \<Rightarrow> int \<Rightarrow> (int \<times> int) option" where
  "compare_loop textRunes patternRunes j k =
     (if 0 \<le> j then
        (case rune_at textRunes k of
           None \<Rightarrow> None
         | Some t \<Rightarrow>
            (case rune_at patternRunes j of
               None \<Rightarrow> None
             | Some p \<Rightarrow>
                 if t = p then compare_loop textRunes patternRunes (j - 1) (k - 1)
                 else Some (j, k)))
      else Some (j, k))"
  by pat_completeness auto
termination
  by (relation "measure (\<lambda>(t, p, j, k). nat (j + 1))") auto

declare compare_loop.simps [simp del]

text \<open>The outer loop \<open>for i < textLen { ... }\<close> of \<open>Search\<close>.  With an empty pattern its
  body would never advance \<open>i\<close>; \<open>Search\<close> returns before the loop in that case.\<close>

partial_function (option) search_loop ::
  "'r BoyerMoore \<Rightarrow> 'r list \<Rightarrow> int \<Rightarrow> int list \<Rightarrow> int list option" where
  "search_loop bm textRunes i matches =
     (if i < int (length textRunes) then
        (case compare_loop textRunes (pattern bm) (int (length (pattern bm)) - 1) i of
           None \<Rightarrow> None
         | Some (j, k) \<Rightarrow>
             if j < 0 then
               search_loop bm textRunes (i + int (length (pattern bm))) (matches @ [k + 1])
             else
               (case rune_at textRunes k of
                  None \<Rightarrow> None
                | Some c \<Rightarrow>
                    search_loop bm textRunes (i + max 1 (getBadCharShift bm c)) matches))
      else Some matches)"

declare search_loop.simps [code]

definition Search :: "('r \<Rightarrow> 'r) \<Rightarrow> 'r BoyerMoore \<Rightarrow> 'r list \<Rightarrow> int list option" where
  "Search lower bm text =
     (let textRunes = (if caseSensitive bm then text else map lower text);
          patternRunes = pattern bm;
          textLen = int (length textRunes);
          patternLen = int (length patternRunes)
      in if patternLen = 0 \<or> textLen < patternLen then Some []
         else search_loop bm textRunes (patternLen - 1) [])"

record 'l LineMatch =
  LineNumber :: int
  Line :: 'l
  Positions :: "int list"
  Count :: int

text \<open>\<open>SearchLines\<close>: \<open>for lineNum, line := range lines\<close>, keeping the lines with at least
  one position.  The lines are Go strings of a type \<open>'l\<close>; \<open>rn\<close> is the conversion
  \<open>[]rune(line)\<close>.\<close>

fun SearchLines_loop ::
  "('r \<Rightarrow> 'r) \<Rightarrow> ('l \<Rightarrow> 'r list) \<Rightarrow> 'r BoyerMoore \<Rightarrow> int \<Rightarrow> 'l list \<Rightarrow> 'l LineMatch list
     \<Rightarrow> 'l LineMatch list option" where
  "SearchLines_loop lower rn bm lineNum [] matches = Some matches"
| "SearchLines_loop lower rn bm lineNum (line # rest) matches =
     (case Search lower bm (rn line) of
        None \<Rightarrow> None
      | Some positions \<Rightarrow>
          SearchLines_loop lower rn bm (lineNum + 1) rest
            (if 0 < length positions
             then matches @ [\<lparr>LineNumber = lineNum + 1, Line = line, Positions = positions,
                              Count = int (length positions)\<rparr>]
             else matches))"

definition SearchLines ::
  "('r \<Rightarrow> 'r) \<Rightarrow> ('l \<Rightarrow> 'r list) \<Rightarrow> 'r BoyerMoore \<Rightarrow> 'l list \<Rightarrow> 'l LineMatch list option" where
  "SearchLines lower rn bm lines = SearchLines_loop lower rn bm 0 lines []"

subsection \<open>Reference definitions for the matcher\<close>

text \<open>Reference scan: the left-to-right substring scan of the sibling
  \<open>TextParser.findMatchPositions\<close> (repeated \<open>strings.Index\<close>, restarting after each
  occurrence), on rune sequences; \<open>off\<close> is the offset of the remaining text.\<close>

function naive_scan :: "'r list \<Rightarrow> 'r list \<Rightarrow> nat \<Rightarrow> nat list" where
  "naive_scan P T off =
     (if P = [] \<or> T = [] then []
      else if prefix P T then off # naive_scan P (drop (length P) T) (off + length P)
      else naive_scan P (tl T) (Suc off))"
  by pat_completeness auto
termination
  by (relation "measure (\<lambda>(P, T, off). length T)") auto

declare naive_scan.simps [simp del]

text \<open>The algorithm in the specification's words.  The comparison at scan cursor \<open>i\<close>
  (the text index under the pattern's last character) runs right to left;
  \<open>common_suffix_len\<close> is the number of characters that agree before the first
  disagreement.\<close>

definition common_suffix_len :: "'r list \<Rightarrow> 'r list \<Rightarrow> nat" where
  "common_suffix_len xs ys = length (takeWhile (\<lambda>(a, b). a = b) (zip (rev xs) (rev ys)))"

text \<open>Skip table: the distance of a pattern character (its rightmost occurrence) from the
  pattern's end; the full pattern length for a character not in the pattern.\<close>

definition spec_skip :: "'r list \<Rightarrow> 'r \<Rightarrow> nat" where
  "spec_skip P c =
     (if c \<in> set P then length (takeWhile (\<lambda>x. x \<noteq> c) (rev P)) else length P)"

text \<open>Scan: on a full match record the starting offset and advance by the pattern length;
  on a mismatch at comparison position \<open>k\<close> advance by \<open>max 1 (skip (text ! k))\<close>.\<close>

function spec_scan :: "'r list \<Rightarrow> 'r list \<Rightarrow> nat \<Rightarrow> nat list" where
  "spec_scan P T i =
     (if P = [] \<or> length T \<le> i then []
      else if common_suffix_len (take (Suc i) T) P = length P
           then (Suc i - length P) # spec_scan P T (i + length P)
           else spec_scan P T
                  (i + max 1 (spec_skip P (T ! (i - common_suffix_len (take (Suc i) T) P)))))"
  by pat_completeness auto
termination
proof (relation "measure (\<lambda>(P, T, i). length T - i)")
  fix P T :: "'r list" and i :: nat
  assume "\<not> (P = [] \<or> length T \<le> i)"
  then have "0 < length P" "i < length T" by auto
  then have "length T - (i + length P) < length T - i" by linarith
  then show "((P, T, i + length P), (P, T, i)) \<in> measure (\<lambda>(P, T, i). length T - i)"
    by simp
qed auto

declare spec_scan.simps [simp del]

definition spec_FindAll :: "'r list \<Rightarrow> 'r list \<Rightarrow> nat list" where
  "spec_FindAll P T =
     (if P = [] \<or> length T < length P then [] else spec_scan P T (length P - 1))"

section \<open>Context extraction (ContextSearch) and context aggregation\<close>

text \<open>
  \<open>contextLines\<close> is a Go \<open>int\<close> set from the command line, so it is a 64-bit word read as
  a signed number; sums and differences with it wrap around (\<open>int64\<close>).  Line indices and
  slice lengths are bounded by the length of the line sequence and are kept as \<open>int\<close>.
\<close>

definition int64 :: "int \<Rightarrow> int" where
  "int64 x = signed_take_bit 63 x"

record 'r ContextSearch =
  searcher :: "'r BoyerMoore"
  contextLines :: "64 word"

definition NewContextSearch ::
  "('r \<Rightarrow> 'r) \<Rightarrow> 'r list \<Rightarrow> bool \<Rightarrow> 64 word \<Rightarrow> 'r ContextSearch" where
  "NewContextSearch lower pat cs ctxLines =
     \<lparr>searcher = NewBoyerMoore lower pat cs, contextLines = ctxLines\<rparr>"

text \<open>
  \<open>getContext\<close>: \<open>start := max(0, lineIndex-contextLines)\<close>,
  \<open>end := min(len(lines), lineIndex+contextLines+1)\<close>, then
  \<open>make([]string, end-start)\<close> and \<open>copy(context, lines[start:end])\<close>.
  When \<open>end < start\<close> the call panics (a negative length in \<open>make\<close>, or, should the
  subtraction wrap, the slice expression \<open>lines[start:end]\<close>); otherwise
  \<open>0 \<le> start \<le> end \<le> len(lines)\<close> and the slice is copied.
\<close>

definition getContext :: "'r ContextSearch \<Rightarrow> 'l list \<Rightarrow> int \<Rightarrow> 'l list option" where
  "getContext cs lines lineIndex =
     (let start = max 0 (int64 (lineIndex - sint (contextLines cs)));
          end = min (int (length lines)) (int64 (int64 (lineIndex + sint (contextLines cs)) + 1))
      in if end < start then None
         else Some (take (nat (end - start)) (drop (nat start) lines)))"

record 'l ContextMatch =
  LineMatch :: "'l LineMatch"
  Context :: "'l list"

fun SearchWithContext_loop ::
  "'r ContextSearch \<Rightarrow> 'l list \<Rightarrow> 'l LineMatch list \<Rightarrow> 'l ContextMatch list
     \<Rightarrow> 'l ContextMatch list option" where
  "SearchWithContext_loop cs lines [] contextMatches = Some contextMatches"
| "SearchWithContext_loop cs lines (match # rest) contextMatches =
     (case getContext cs lines (LineNumber match - 1) of
        None \<Rightarrow> None
      | Some ctx \<Rightarrow>
          SearchWithContext_loop cs lines rest
            (contextMatches @ [\<lparr>LineMatch = match, Context = ctx\<rparr>]))"

definition SearchWithContext ::
  "('r \<Rightarrow> 'r) \<Rightarrow> ('l \<Rightarrow> 'r list) \<Rightarrow> 'r ContextSearch \<Rightarrow> 'l list
     \<Rightarrow> 'l ContextMatch list option" where
  "SearchWithContext lower rn cs lines =
     (case SearchLines lower rn (searcher cs) lines of
        None \<Rightarrow> None
      | Some matches \<Rightarrow> SearchWithContext_loop cs lines matches [])"

text \<open>\<open>contains\<close> of keyword\_finder.go: membership by string equality.\<close>

fun contains :: "'a list \<Rightarrow> 'a \<Rightarrow> bool" where
  "contains [] item = False"
| "contains (s # rest) item = (if s = item then True else contains rest item)"

text \<open>The aggregation loops of \<open>searchFileContent\<close>: for each match, record its line
  number, add its count, and append each of its context lines that the aggregate does not
  contain yet.  The state is \<open>(MatchLines, totalMatches, Context)\<close>.\<close>

fun context_loop :: "'a list \<Rightarrow> 'a list \<Rightarrow> 'a list" where
  "context_loop ctx [] = ctx"
| "context_loop ctx (contextLine # rest) =
     context_loop (if \<not> contains ctx contextLine then ctx @ [contextLine] else ctx) rest"

fun match_loop ::
  "'l ContextMatch list \<Rightarrow> int list \<times> int \<times> 'l list \<Rightarrow> int list \<times> int \<times> 'l list" where
  "match_loop [] st = st"
| "match_loop (match # rest) (matchLines, totalMatches, ctx) =
     match_loop rest
       (matchLines @ [LineNumber (LineMatch match)],
        totalMatches + Count (LineMatch match),
        context_loop ctx (Context match))"

definition aggregate_context :: "'l ContextMatch list \<Rightarrow> 'l list" where
  "aggregate_context matches = snd (snd (match_loop matches ([], 0, [])))"

subsection \<open>Reference definition for the context window\<close>

text \<open>The window in the specification's words: the lines whose 0-based index lies in
  \<open>[n-1-c, n-1+c]\<close> and in \<open>[0, len(lines))\<close>, in file order.\<close>

definition spec_window :: "int \<Rightarrow> 'l list \<Rightarrow> int \<Rightarrow> 'l list" where
  "spec_window c lines n =
     map ((!) lines)
       (filter (\<lambda>i. n - 1 - c \<le> int i \<and> int i \<le> n - 1 + c) [0..<length lines])"

text \<open>The same window as a slice \<open>lines[win_start : win_end]\<close> at a 0-based index.\<close>

definition win_start :: "int \<Rightarrow> nat \<Rightarrow> nat" where
  "win_start c idx = nat (max 0 (int idx - c))"

definition win_end :: "int \<Rightarrow> nat \<Rightarrow> nat \<Rightarrow> nat" where
  "win_end c len idx = nat (min (int len) (int idx + c + 1))"

definition window :: "int \<Rightarrow> 'l list \<Rightarrow> nat \<Rightarrow> 'l list" where
  "window c lines idx =
     take (win_end c (length lines) idx - win_start c idx) (drop (win_start c idx) lines)"

section \<open>Configuration, Go library functions and filters (package finder)\<close>

text \<open>
  A Go \<open>string\<close> is its byte sequence: a \<open>char list\<close>.  The functions of the Go standard
  library and of \<open>golang.org/x/text\<close> that the finder calls and that depend on Unicode
  tables, on encodings or on the platform are collected in a record that the model takes
  as a parameter.
\<close>

record 'r GoLib =
  PathSeparator :: char                                \<comment> \<open>\<open>os.PathSeparator\<close>\<close>
  ToLower :: "string \<Rightarrow> string"                   \<comment> \<open>\<open>strings.ToLower\<close>\<close>
  runes :: "string \<Rightarrow> 'r list"                    \<comment> \<open>\<open>[]rune(s)\<close>\<close>
  lowerRune :: "'r \<Rightarrow> 'r"                          \<comment> \<open>\<open>unicode.ToLower\<close>\<close>
  utf8_Valid :: "string \<Rightarrow> bool"                  \<comment> \<open>\<open>utf8.Valid\<close>\<close>
  GBK_decode :: "string \<Rightarrow> string option"         \<comment> \<open>reading through the GBK decoder\<close>
  GB18030_decode :: "string \<Rightarrow> string option"     \<comment> \<open>reading through the GB18030 decoder\<close>
  hex_preview :: "string \<Rightarrow> string"               \<comment> \<open>the \<open>fmt.Sprintf\<close> of \<open>tryDecode\<close>\<close>
  parser_decoders :: "(string \<Rightarrow> string option) list"
     \<comment> \<open>\<open>decoder.Bytes\<close> of UTF-16 LE, UTF-16 BE, Windows-1252, ISO 8859-1, in this order\<close>
  strip_invalid :: "string \<Rightarrow> string option"       \<comment> \<open>reading through the rune-removing chain\<close>
  format_time :: "int \<Rightarrow> string"                   \<comment> \<open>\<open>t.Format("2006-01-02 15:04:05")\<close>\<close>
  mode_string :: "nat \<Rightarrow> string"                   \<comment> \<open>\<open>FileMode.String\<close>\<close>

record SearchConfig =
  StartDir :: string
  MaxDepth :: int
  Concurrent :: bool
  MaxWorkers :: int
  IncludeDir :: bool
  SizeLimit :: int
  FileTypes :: "string list"
  ExcludeDirs :: "string list"
  GlobalSearch :: bool
  ContentSearch :: bool
  SearchMode :: string
  ContextLines :: "64 word"
  MaxContentSize :: int
  CaseSensitive :: bool

text \<open>The result record \<open>FileInfo\<close> of config.go (fields \<open>Path\<close>, \<open>Size\<close>, \<open>ModTime\<close>,
  \<open>Permissions\<close>, \<open>Content\<close>, \<open>MatchType\<close>, \<open>MatchLines\<close>, \<open>MatchCount\<close>, \<open>Context\<close>; the
  prefix keeps them apart from the fields of \<open>FileIndex\<close> and \<open>ContextMatch\<close>).\<close>

record FileInfo =
  InfoPath :: string
  InfoSize :: int
  InfoModTime :: string
  InfoPermissions :: string
  Content :: string
  MatchType :: string
  MatchLines :: "int list"
  MatchCount :: int
  InfoContext :: "string list"

text \<open>The zero value \<open>FileInfo{}\<close>.\<close>

definition FileInfo_zero :: FileInfo where
  "FileInfo_zero =
     \<lparr>InfoPath = [], InfoSize = 0, InfoModTime = [], InfoPermissions = [], Content = [],
      MatchType = [], MatchLines = [], MatchCount = 0, InfoContext = []\<rparr>"

text \<open>What the methods of an \<open>os.FileInfo\<close> return; times are abstract instants.\<close>

record os_FileInfo =
  st_Name :: string
  st_Size :: int
  st_ModTime :: int
  st_IsDir :: bool
  st_Mode :: nat

subsection \<open>String and path functions\<close>

text \<open>\<open>strings.Contains s substr\<close>.\<close>

fun Contains :: "string \<Rightarrow> string \<Rightarrow> bool" where
  "Contains [] substr = (substr = [])"
| "Contains (c # s) substr = (if prefix substr (c # s) then True else Contains s substr)"

text \<open>\<open>strings.Count\<close> for a one-byte separator string.\<close>

definition Count :: "string \<Rightarrow> char \<Rightarrow> int" where
  "Count s c = int (length (filter (\<lambda>x. x = c) s))"

text \<open>\<open>filepath.Ext\<close>: scanning from the end and stopping at a separator, the suffix that
  starts at the first dot met.  The scan runs over the reversed path.\<close>

fun Ext_scan :: "char \<Rightarrow> string \<Rightarrow> string \<Rightarrow> string" where
  "Ext_scan sep [] tail = []"
| "Ext_scan sep (c # front) tail =
     (if c = sep then []
      else if c = CHR ''.'' then c # tail
      else Ext_scan sep front (c # tail))"

definition Ext :: "char \<Rightarrow> string \<Rightarrow> string" where
  "Ext sep path = Ext_scan sep (rev path) []"

text \<open>\<open>filepath.Base\<close> (no volume names): the last element of the path after trailing
  separators are removed; \<open>.\<close> for the empty path and the separator for a path of
  separators only.\<close>

definition Base :: "char \<Rightarrow> string \<Rightarrow> string" where
  "Base sep path =
     (if path = [] then ''.''
      else (let stripped = rev (dropWhile (\<lambda>c. c = sep) (rev path));
                elem = rev (takeWhile (\<lambda>c. c \<noteq> sep) (rev stripped))
            in if elem = [] then [sep] else elem))"

subsection \<open>Filters\<close>

text \<open>\<open>shouldSkipFile\<close> of flag\_finder.go, the filter of the index builder and of the
  name, permission and modification-time walks.\<close>

definition shouldSkipFile :: "'r GoLib \<Rightarrow> string \<Rightarrow> os_FileInfo \<Rightarrow> SearchConfig \<Rightarrow> bool" where
  "shouldSkipFile lib path info config =
     (if list_ex (\<lambda>excludeDir. Contains path excludeDir) (ExcludeDirs config) then True
      else if 0 < length (FileTypes config) \<and> \<not> st_IsDir info
              \<and> \<not> list_ex (\<lambda>allowedType.
                              ToLower lib (Ext (PathSeparator lib) path) = CHR ''.'' # allowedType)
                            (FileTypes config)
           then True
      else if 0 < MaxDepth config \<and> MaxDepth config < Count path (PathSeparator lib) then True
      else False)"

text \<open>\<open>shouldExcludeDir\<close> and \<open>isAllowedFileType\<close> of keyword\_finder.go, the filters of the
  content walk.\<close>

definition shouldExcludeDir :: "'r GoLib \<Rightarrow> string \<Rightarrow> string list \<Rightarrow> bool" where
  "shouldExcludeDir lib dirPath excludeDirs =
     list_ex (\<lambda>exclude. Base (PathSeparator lib) dirPath = exclude) excludeDirs"

definition isAllowedFileType :: "'r GoLib \<Rightarrow> string \<Rightarrow> string list \<Rightarrow> bool" where
  "isAllowedFileType lib filePath allowedTypes =
     (let ext = ToLower lib (Ext (PathSeparator lib) filePath);
          ext = (if ext = [] then ext else tl ext)
      in list_ex (\<lambda>allowedType. ext = ToLower lib allowedType) allowedTypes)"

subsection \<open>An ASCII instance of the library, for evaluation\<close>

definition ascii_lower :: "char \<Rightarrow> char" where
  "ascii_lower c =
     (case map_of (zip ''ABCDEFGHIJKLMNOPQRSTUVWXYZ'' ''abcdefghijklmnopqrstuvwxyz'') c of
        Some l \<Rightarrow> l
      | None \<Rightarrow> c)"

definition ascii_lib :: "char GoLib" where
  "ascii_lib =
     \<lparr>PathSeparator = CHR ''/'', ToLower = map ascii_lower, runes = (\<lambda>s. s),
      lowerRune = ascii_lower, utf8_Valid = (\<lambda>s. True), GBK_decode = Some,
      GB18030_decode = Some, hex_preview = (\<lambda>s. s), parser_decoders = [],
      strip_invalid = Some, format_time = (\<lambda>t. []), mode_string = (\<lambda>m. [])\<rparr>"

text \<open>\<open>NewDefaultConfig\<close> of config.go.\<close>

definition NewDefaultConfig :: SearchConfig where
  "NewDefaultConfig =
     \<lparr>StartDir = ''.'', MaxDepth = - 1, Concurrent = True, MaxWorkers = 5, IncludeDir = False,
      SizeLimit = - 1, FileTypes = [], ExcludeDirs = [''.git'', ''node_modules''],
      GlobalSearch = False, ContentSearch = False, SearchMode = ''filename'',
      ContextLines = 2, MaxContentSize = 10 * 1024 * 1024, CaseSensitive = False\<rparr>"

section \<open>The file system and \<open>filepath.Walk\<close>\<close>

datatype error =
  ErrPermission      \<comment> \<open>an error for which \<open>os.IsPermission\<close> holds\<close>
| ErrNotExist
| ErrIO
| ErrSizeLimit       \<comment> \<open>\<open>ParseFile\<close>: the file is larger than the parser's limit\<close>
| ErrBinaryLines     \<comment> \<open>\<open>GetFileLines\<close>: a binary file has no lines\<close>

definition IsPermission :: "error \<Rightarrow> bool" where
  "IsPermission err = (err = ErrPermission)"

text \<open>What opening and reading a path gives: the open fails, the read fails, or the bytes.\<close>

datatype os_file = OpenFails error | ReadFails error | Bytes string

text \<open>A directory tree as \<open>filepath.Walk\<close> sees it: each entry carries the path that Walk
  passes to the callback, the result of \<open>Lstat\<close>, the error of reading the directory (if
  any) and the entries of the directory in the order of their names.\<close>

datatype fs_entry =
  Entry (ePath: string) (eLstat: "error + os_FileInfo") (eReadDir: "error option")
        (eNames: "fs_entry list")

record FileSystem =
  walk_tree :: "string \<Rightarrow> fs_entry"            \<comment> \<open>the tree under a root path\<close>
  os_Stat :: "string \<Rightarrow> error + os_FileInfo"   \<comment> \<open>\<open>os.Stat\<close>\<close>
  os_File :: "string \<Rightarrow> os_file"              \<comment> \<open>\<open>os.Open\<close> or \<open>os.ReadFile\<close>, then reading\<close>

text \<open>What a walk callback returns: \<open>nil\<close>, \<open>filepath.SkipDir\<close>, another error, or nothing
  because it panicked.  Walk hands every result other than \<open>nil\<close> and \<open>SkipDir\<close> up to its
  caller at once, which is also how a panic leaves it.\<close>

datatype walk_ret = RetNil | SkipDir | RetErr error | Panicked

text \<open>
  \<open>filepath.Walk\<close> of the Go standard library, after its implementation.  The callback
  \<open>fn\<close> gets the path and either the error (\<open>Inl\<close>, the call \<open>fn(path, info, err)\<close> with
  \<open>err != nil\<close>; the callbacks of this repository return before they read \<open>info\<close> then) or
  the file information (\<open>Inr\<close>, the call \<open>fn(path, info, nil)\<close>), and it threads a state
  \<open>'s\<close>, the variables it closes over.

  \<open>walk\<close>: a file is passed to \<open>fn\<close>; a directory is read, passed to \<open>fn\<close> with the read
  error, and left when there is a read error or \<open>fn\<close> does not return \<open>nil\<close>; otherwise its
  names are visited in order.  For a name whose \<open>Lstat\<close> fails \<open>fn\<close> is called with the
  error, and the walk stops on a result other than \<open>nil\<close> and \<open>SkipDir\<close>; for another name
  \<open>walk\<close> is called, and the walk stops on a result other than \<open>nil\<close> unless the name is a
  directory and the result \<open>SkipDir\<close>.
\<close>

fun walk :: "(string \<Rightarrow> error + os_FileInfo \<Rightarrow> 's \<Rightarrow> walk_ret \<times> 's)
               \<Rightarrow> fs_entry \<Rightarrow> os_FileInfo \<Rightarrow> 's \<Rightarrow> walk_ret \<times> 's"
and walk_names :: "(string \<Rightarrow> error + os_FileInfo \<Rightarrow> 's \<Rightarrow> walk_ret \<times> 's)
               \<Rightarrow> fs_entry list \<Rightarrow> 's \<Rightarrow> walk_ret \<times> 's"
where
  "walk fn (Entry path lst rd names) info s =
     (if st_IsDir info then
        (case rd of
           Some err \<Rightarrow> fn path (Inl err) s
         | None \<Rightarrow>
            (case fn path (Inr info) s of
               (err1, s1) \<Rightarrow> if err1 = RetNil then walk_names fn names s1 else (err1, s1)))
      else fn path (Inr info) s)"
| "walk_names fn [] s = (RetNil, s)"
| "walk_names fn (Entry filename lst rd names # rest) s =
     (case lst of
        Inl err \<Rightarrow>
          (case fn filename (Inl err) s of
             (r, s1) \<Rightarrow>
               if r = RetNil \<or> r = SkipDir then walk_names fn rest s1 else (r, s1))
      | Inr fileInfo \<Rightarrow>
          (case walk fn (Entry filename lst rd names) fileInfo s of
             (r, s1) \<Rightarrow>
               if r = RetNil then walk_names fn rest s1
               else if st_IsDir fileInfo \<and> r = SkipDir then walk_names fn rest s1
               else (r, s1)))"

definition Walk :: "(string \<Rightarrow> error + os_FileInfo \<Rightarrow> 's \<Rightarrow> walk_ret \<times> 's)
                      \<Rightarrow> fs_entry \<Rightarrow> 's \<Rightarrow> walk_ret \<times> 's" where
  "Walk fn root s =
     (case (case eLstat root of
              Inl err \<Rightarrow> fn (ePath root) (Inl err) s
            | Inr info \<Rightarrow> walk fn root info s) of
        (r, s1) \<Rightarrow> (if r = SkipDir then RetNil else r, s1))"

section \<open>The index (indexer.go)\<close>

record FileIndex =
  Path :: string
  Name :: string
  Size :: int
  ModTime :: int
  IsDir :: bool
  Permissions :: nat

record Indexer =
  fileIndices :: "string \<rightharpoonup> FileIndex"
  nameIndices :: "string \<rightharpoonup> string list"
  lastUpdate :: int

text \<open>The indexer that \<open>GetIndexer\<close> creates once: two empty maps and the zero time.\<close>

definition GetIndexer_initial :: Indexer where
  "GetIndexer_initial = \<lparr>fileIndices = Map.empty, nameIndices = Map.empty, lastUpdate = 0\<rparr>"

text \<open>\<open>FileIndex{Path: path, Name: info.Name(), ...}\<close>, built in \<open>BuildIndex\<close> and in
  \<open>Search\<close>.\<close>

definition FileIndex_of :: "string \<Rightarrow> os_FileInfo \<Rightarrow> FileIndex" where
  "FileIndex_of path info =
     \<lparr>Path = path, Name = st_Name info, Size = st_Size info, ModTime = st_ModTime info,
      IsDir = st_IsDir info, Permissions = st_Mode info\<rparr>"

text \<open>\<open>append(m[key], path)\<close> on a map of slices; a missing key reads as the nil slice.\<close>

definition append_at :: "(string \<rightharpoonup> string list) \<Rightarrow> string \<Rightarrow> string \<Rightarrow> (string \<rightharpoonup> string list)" where
  "append_at m key path = m(key \<mapsto> (case m key of None \<Rightarrow> [] | Some paths \<Rightarrow> paths) @ [path])"

text \<open>One flush of a worker's local cache into the temporary maps, inside one critical
  section: \<open>for k, v := range localCache { tempFileIndices[k] = v;
  tempNameIndices[v.Name] = append(tempNameIndices[v.Name], v.Path) }\<close>.
  The cache is keyed by \<open>file.Path\<close>, so \<open>k\<close> is \<open>v.Path\<close>; the batch is the list of the
  cache's values in the order of the iteration.\<close>

fun flush_cache ::
  "(string \<rightharpoonup> FileIndex) \<times> (string \<rightharpoonup> string list) \<Rightarrow> FileIndex list
     \<Rightarrow> (string \<rightharpoonup> FileIndex) \<times> (string \<rightharpoonup> string list)" where
  "flush_cache (tempFileIndices, tempNameIndices) [] = (tempFileIndices, tempNameIndices)"
| "flush_cache (tempFileIndices, tempNameIndices) (v # rest) =
     flush_cache (tempFileIndices(Path v \<mapsto> v), append_at tempNameIndices (Name v) (Path v)) rest"

text \<open>The callback of the walk in \<open>BuildIndex\<close>.  Its state is the sequence of entries put
  on \<open>filesChan\<close>; \<open>delivered path\<close> says whether the send of the entry of \<open>path\<close> went
  through before the 10 ms timeout of the \<open>select\<close>.\<close>

definition index_walkFn ::
  "'r GoLib \<Rightarrow> SearchConfig \<Rightarrow> (string \<Rightarrow> bool)
     \<Rightarrow> string \<Rightarrow> error + os_FileInfo \<Rightarrow> FileIndex list \<Rightarrow> walk_ret \<times> FileIndex list" where
  "index_walkFn lib config delivered path arg filesChan =
     (case arg of
        Inl err \<Rightarrow> (if IsPermission err then SkipDir else RetNil, filesChan)
      | Inr info \<Rightarrow>
          if shouldSkipFile lib path info config
          then (if st_IsDir info then SkipDir else RetNil, filesChan)
          else if delivered path then (RetNil, filesChan @ [FileIndex_of path info])
          else (RetNil, filesChan))"

text \<open>
  \<open>BuildIndex\<close>, as one run.  The walk goroutine produces the entries and the walk's error;
  the four workers collect the entries in local caches and flush them into the temporary
  maps.  Which entries end up in which flush, and in which order, depends on the
  scheduling: \<open>batches\<close> maps the sequence of delivered entries to the sequence of flushed
  caches.  After the workers are done, an error of the walk is returned and the index is
  left as it is; otherwise the temporary maps replace the index's maps.
\<close>

definition BuildIndex ::
  "'r GoLib \<Rightarrow> FileSystem \<Rightarrow> (string \<Rightarrow> bool) \<Rightarrow> (FileIndex list \<Rightarrow> FileIndex list list) \<Rightarrow> int
     \<Rightarrow> Indexer \<Rightarrow> string \<Rightarrow> SearchConfig \<Rightarrow> walk_ret \<times> Indexer" where
  "BuildIndex lib fs delivered batches now idx startDir config =
     (case Walk (index_walkFn lib config delivered) (walk_tree fs startDir) [] of
        (err, filesChan) \<Rightarrow>
          (case foldl flush_cache (Map.empty, Map.empty) (batches filesChan) of
             (tempFileIndices, tempNameIndices) \<Rightarrow>
               if err = RetNil
               then (RetNil, idx\<lparr>fileIndices := tempFileIndices, nameIndices := tempNameIndices,
                                   lastUpdate := now\<rparr>)
               else (err, idx)))"

text \<open>\<open>addToIndex\<close>.\<close>

definition addToIndex :: "Indexer \<Rightarrow> FileIndex \<Rightarrow> Indexer" where
  "addToIndex idx file =
     idx\<lparr>fileIndices := (fileIndices idx)(Path file \<mapsto> file),
         nameIndices := append_at (nameIndices idx) (Name file) (Path file)\<rparr>"

subsection \<open>\<open>GetFileInfo\<close> (flag\_finder.go)\<close>

definition isBinary :: "string \<Rightarrow> bool" where
  "isBinary data = list_ex (\<lambda>b. b = CHR 0x00) (take 1024 data)"

text \<open>The marker \<open>"[binary file]"\<close> of the source, a Chinese string literal, as its UTF-8
  bytes.\<close>

definition binaryMarker :: string where
  "binaryMarker =
     [CHR ''['', CHR 0xE4, CHR 0xBA, CHR 0x8C, CHR 0xE8, CHR 0xBF, CHR 0x9B, CHR 0xE5, CHR 0x88,
      CHR 0xB6, CHR 0xE6, CHR 0x96, CHR 0x87, CHR 0xE4, CHR 0xBB, CHR 0xB6, CHR '']'']"

definition tryDecode :: "'r GoLib \<Rightarrow> string \<Rightarrow> string" where
  "tryDecode lib data =
     (case GBK_decode lib data of
        Some decoded \<Rightarrow> decoded
      | None \<Rightarrow>
          (case GB18030_decode lib data of
             Some decoded \<Rightarrow> decoded
           | None \<Rightarrow> hex_preview lib data))"

definition GetFileInfo ::
  "'r GoLib \<Rightarrow> FileSystem \<Rightarrow> string \<Rightarrow> os_FileInfo \<Rightarrow> SearchConfig \<Rightarrow> error + FileInfo" where
  "GetFileInfo lib fs path info config =
     (let mk = (\<lambda>content.
                  \<lparr>InfoPath = path, InfoSize = st_Size info,
                   InfoModTime = format_time lib (st_ModTime info),
                   InfoPermissions = mode_string lib (st_Mode info), Content = content,
                   MatchType = [], MatchLines = [], MatchCount = 0, InfoContext = []\<rparr>)
      in if SizeLimit config = - 1 \<or> st_Size info \<le> SizeLimit config then
           (case os_File fs path of
              OpenFails err \<Rightarrow> Inl err
            | ReadFails err \<Rightarrow> Inl err
            | Bytes data \<Rightarrow>
                Inr (mk (if isBinary data then binaryMarker
                         else if utf8_Valid lib data then data
                         else tryDecode lib data)))
         else Inr (mk []))"

subsection \<open>\<open>Indexer.Search\<close>\<close>

text \<open>The inner loop \<open>for _, path := range paths\<close>; the state is the indexer (whose
  \<open>fileIndices\<close> the loop refreshes) and the result map.\<close>

fun search_paths ::
  "'r GoLib \<Rightarrow> FileSystem \<Rightarrow> SearchConfig \<Rightarrow> string list
     \<Rightarrow> Indexer \<times> (string \<rightharpoonup> FileInfo) \<Rightarrow> Indexer \<times> (string \<rightharpoonup> FileInfo)" where
  "search_paths lib fs config [] st = st"
| "search_paths lib fs config (path # rest) (idx, results) =
     search_paths lib fs config rest
       (case fileIndices idx path of
          None \<Rightarrow> (idx, results)
        | Some fileIndex \<Rightarrow>
            if IsDir fileIndex then (idx, results)
            else
              (case os_Stat fs path of
                 Inl err \<Rightarrow> (idx, results)
               | Inr info \<Rightarrow>
                   (let idx1 =
                          (if st_ModTime info = ModTime fileIndex then idx
                           else idx\<lparr>fileIndices :=
                                        (fileIndices idx)(path \<mapsto> FileIndex_of path info)\<rparr>)
                    in case GetFileInfo lib fs path info config of
                         Inl err \<Rightarrow> (idx1, results)
                       | Inr fileInfo \<Rightarrow> (idx1, results(path \<mapsto> fileInfo)))))"

text \<open>The outer loop \<open>for name, paths := range idx.nameIndices\<close>; \<open>names\<close> is the order in
  which the iteration yields the keys of the map.\<close>

fun search_names ::
  "'r GoLib \<Rightarrow> FileSystem \<Rightarrow> string \<Rightarrow> SearchConfig \<Rightarrow> string list
     \<Rightarrow> Indexer \<times> (string \<rightharpoonup> FileInfo) \<Rightarrow> Indexer \<times> (string \<rightharpoonup> FileInfo)" where
  "search_names lib fs keyword config [] st = st"
| "search_names lib fs keyword config (name # rest) (idx, results) =
     search_names lib fs keyword config rest
       (case nameIndices idx name of
          None \<Rightarrow> (idx, results)
        | Some paths \<Rightarrow>
            if Contains (ToLower lib name) (ToLower lib keyword)
            then search_paths lib fs config paths (idx, results)
            else (idx, results))"

text \<open>\<open>Search\<close> returns the result map and a nil error; the model also returns the
  indexer, whose records the search may have refreshed.  (The advisory log line for an
  index older than 30 minutes has no effect on the result.)\<close>

definition IndexerSearch ::
  "'r GoLib \<Rightarrow> FileSystem \<Rightarrow> string list \<Rightarrow> Indexer \<Rightarrow> string \<Rightarrow> SearchConfig
     \<Rightarrow> (string \<rightharpoonup> FileInfo) \<times> walk_ret \<times> Indexer" where
  "IndexerSearch lib fs names idx keyword config =
     (case search_names lib fs keyword config names (idx, Map.empty) of
        (idx1, results) \<Rightarrow> (results, RetNil, idx1))"

text \<open>Two predicates for reasoning about \<open>Search\<close>: a path that the index \<open>idx0\<close> holds as
  a file and that \<open>os.Stat\<close> finds; and the loop invariant, that the indexer differs from
  \<open>idx0\<close> and the result map from the empty map only at such paths.\<close>

definition search_ok :: "Indexer \<Rightarrow> FileSystem \<Rightarrow> string \<Rightarrow> bool" where
  "search_ok idx0 fs path =
     ((\<exists>fileIndex. fileIndices idx0 path = Some fileIndex \<and> \<not> IsDir fileIndex)
      \<and> (\<exists>info. os_Stat fs path = Inr info))"

definition search_inv ::
  "Indexer \<Rightarrow> FileSystem \<Rightarrow> Indexer \<times> (string \<rightharpoonup> FileInfo) \<Rightarrow> bool" where
  "search_inv idx0 fs st =
     ((\<forall>path. fileIndices (fst st) path = fileIndices idx0 path \<or> search_ok idx0 fs path)
      \<and> (\<forall>path. snd st path = None \<or> search_ok idx0 fs path))"

section \<open>Text parser (package parser) and content search (keyword\_finder.go)\<close>

record TextParser =
  maxSize :: int

definition NewTextParser :: "int \<Rightarrow> TextParser" where
  "NewTextParser maxSize' = \<lparr>maxSize = maxSize'\<rparr>"

text \<open>
  \<open>isBinaryFile\<close> on an opened file: a failing read means binary; otherwise the first
  \<open>n \<le> 512\<close> bytes are inspected.  (Its callers return before the call when the open
  fails.)  The test \<open>float64(nonPrintCount)/float64(n) > 0.3\<close> is
  the integer test \<open>10 * nonPrintCount > 3 * n\<close>: for \<open>n \<le> 512\<close> a quotient above three
  tenths is above them by at least \<open>1/5120\<close>, far more than the rounding of the division
  and of the constant, a quotient of exactly three tenths rounds to the constant itself,
  and for \<open>n = 0\<close> the quotient is NaN, which is not greater than anything.
\<close>

definition nonPrintable :: "char \<Rightarrow> bool" where
  "nonPrintable b =
     ((of_char b :: nat) < 32 \<and> b \<noteq> CHR 0x09 \<and> b \<noteq> CHR 0x0A \<and> b \<noteq> CHR 0x0D)"

definition isBinaryFile :: "os_file \<Rightarrow> bool" where
  "isBinaryFile file =
     (case file of
        OpenFails err \<Rightarrow> True
      | ReadFails err \<Rightarrow> True
      | Bytes data \<Rightarrow>
          (let buffer = take 512 data;
               n = length buffer;
               nullCount = length (filter (\<lambda>b. b = CHR 0x00) buffer);
               nonPrintCount = length (filter nonPrintable buffer)
           in 0 < nullCount \<or> 3 * n < 10 * nonPrintCount))"

text \<open>\<open>detectAndConvertEncoding\<close>: valid UTF-8 as it is; else the first of the decoders
  whose result is valid UTF-8; else the bytes with the invalid runes removed.\<close>

fun first_valid :: "'r GoLib \<Rightarrow> (string \<Rightarrow> string option) list \<Rightarrow> string \<Rightarrow> string option" where
  "first_valid lib [] data = None"
| "first_valid lib (decoder # rest) data =
     (case decoder data of
        None \<Rightarrow> first_valid lib rest data
      | Some result \<Rightarrow>
          if utf8_Valid lib result then Some result else first_valid lib rest data)"

definition detectAndConvertEncoding :: "'r GoLib \<Rightarrow> string \<Rightarrow> error + string" where
  "detectAndConvertEncoding lib data =
     (if utf8_Valid lib data then Inr data
      else (case first_valid lib (parser_decoders lib) data of
              Some result \<Rightarrow> Inr result
            | None \<Rightarrow>
                (case strip_invalid lib data of
                   None \<Rightarrow> Inl ErrIO
                 | Some result \<Rightarrow> Inr result)))"

definition readFileContent :: "'r GoLib \<Rightarrow> os_file \<Rightarrow> error + string" where
  "readFileContent lib file =
     (case file of
        OpenFails err \<Rightarrow> Inl err
      | ReadFails err \<Rightarrow> Inl err
      | Bytes content \<Rightarrow> detectAndConvertEncoding lib content)"

definition ParseFile :: "'r GoLib \<Rightarrow> FileSystem \<Rightarrow> TextParser \<Rightarrow> string \<Rightarrow> error + string" where
  "ParseFile lib fs p filePath =
     (case os_Stat fs filePath of
        Inl err \<Rightarrow> Inl err
      | Inr info \<Rightarrow>
          if 0 < maxSize p \<and> maxSize p < st_Size info then Inl ErrSizeLimit
          else (case os_File fs filePath of
                  OpenFails err \<Rightarrow> Inl err
                | file \<Rightarrow>
                    if isBinaryFile file then Inr binaryMarker
                    else readFileContent lib file))"

text \<open>The extensions of the map \<open>textExts\<close>.\<close>

definition textExts :: "string list" where
  "textExts =
     [''.txt'', ''.log'', ''.conf'', ''.cfg'', ''.ini'', ''.json'', ''.xml'', ''.yaml'', ''.yml'',
      ''.md'', ''.go'', ''.py'', ''.js'', ''.html'', ''.css'', ''.sql'', ''.sh'', ''.bat'', ''.ps1'']"

definition IsTextFile :: "'r GoLib \<Rightarrow> FileSystem \<Rightarrow> TextParser \<Rightarrow> string \<Rightarrow> bool" where
  "IsTextFile lib fs p filePath =
     (let ext = ToLower lib (Ext (PathSeparator lib) filePath)
      in if ext = [] then
           (case os_File fs filePath of
              OpenFails err \<Rightarrow> False
            | file \<Rightarrow> \<not> isBinaryFile file)
         else ext \<in> set textExts)"

text \<open>\<open>strings.Split(content, "\n")\<close>.\<close>

fun Split :: "string \<Rightarrow> char \<Rightarrow> string list" where
  "Split [] sep = [[]]"
| "Split (c # s) sep =
     (if c = sep then [] # Split s sep
      else (case Split s sep of
              [] \<Rightarrow> [[c]]
            | line # lines \<Rightarrow> (c # line) # lines))"

definition GetFileLines :: "'r GoLib \<Rightarrow> FileSystem \<Rightarrow> TextParser \<Rightarrow> string \<Rightarrow> error + string list" where
  "GetFileLines lib fs p filePath =
     (case ParseFile lib fs p filePath of
        Inl err \<Rightarrow> Inl err
      | Inr content \<Rightarrow>
          if content = binaryMarker then Inl ErrBinaryLines
          else Inr (Split content (CHR 0x0A)))"

text \<open>\<open>strings.Join(lines, "\n")\<close>.\<close>

fun Join :: "string list \<Rightarrow> string \<Rightarrow> string" where
  "Join [] sep = []"
| "Join [line] sep = line"
| "Join (line # lines) sep = line @ sep @ Join lines sep"

text \<open>\<open>searchFileContent\<close>; \<open>None\<close> when the context search panics.\<close>

definition searchFileContent ::
  "'r GoLib \<Rightarrow> FileSystem \<Rightarrow> string \<Rightarrow> string \<Rightarrow> SearchConfig \<Rightarrow> TextParser
     \<Rightarrow> (FileInfo \<times> bool) option" where
  "searchFileContent lib fs filePath keyword config textParser =
     (case os_Stat fs filePath of
        Inl err \<Rightarrow> Some (FileInfo_zero, False)
      | Inr info \<Rightarrow>
          (case GetFileLines lib fs textParser filePath of
             Inl err \<Rightarrow> Some (FileInfo_zero, False)
           | Inr lines \<Rightarrow>
               (case SearchWithContext (lowerRune lib) (runes lib)
                       (NewContextSearch (lowerRune lib) (runes lib keyword)
                          (CaseSensitive config) (ContextLines config))
                       lines of
                  None \<Rightarrow> None
                | Some matches \<Rightarrow>
                    if length matches = 0 then Some (FileInfo_zero, False)
                    else (case match_loop matches ([], 0, []) of
                            (matchLines, totalMatches, ctx) \<Rightarrow>
                              Some (\<lparr>InfoPath = filePath, InfoSize = st_Size info,
                                     InfoModTime = format_time lib (st_ModTime info),
                                     InfoPermissions = mode_string lib (st_Mode info),
                                     Content =
                                       (if 0 < length (Context (hd matches))
                                        then Join (Context (hd matches)) [CHR 0x0A] else []),
                                     MatchType = ''content'', MatchLines = matchLines,
                                     MatchCount = totalMatches, InfoContext = ctx\<rparr>,
                                    True)))))"

text \<open>The callback of the walk in \<open>findByContentOnly\<close>; its state is the result map.\<close>

definition content_walkFn ::
  "'r GoLib \<Rightarrow> FileSystem \<Rightarrow> string \<Rightarrow> SearchConfig \<Rightarrow> TextParser
     \<Rightarrow> string \<Rightarrow> error + os_FileInfo \<Rightarrow> (string \<rightharpoonup> FileInfo)
     \<Rightarrow> walk_ret \<times> (string \<rightharpoonup> FileInfo)" where
  "content_walkFn lib fs keyword config textParser path arg results =
     (case arg of
        Inl err \<Rightarrow> (RetNil, results)
      | Inr info \<Rightarrow>
          if st_IsDir info then
            (if shouldExcludeDir lib path (ExcludeDirs config) then (SkipDir, results)
             else (RetNil, results))
          else if 0 < SizeLimit config \<and> SizeLimit config < st_Size info then (RetNil, results)
          else if 0 < length (FileTypes config) \<and> \<not> isAllowedFileType lib path (FileTypes config)
               then (RetNil, results)
          else if \<not> IsTextFile lib fs textParser path then (RetNil, results)
          else (case searchFileContent lib fs path keyword config textParser of
                  None \<Rightarrow> (Panicked, results)
                | Some (fileInfo, found) \<Rightarrow>
                    if found then (RetNil, results(path \<mapsto> fileInfo)) else (RetNil, results)))"

text \<open>The files that the content walk admits, that is, passes to \<open>searchFileContent\<close>:
  the conditions under which the callback reaches its last branch.\<close>

definition content_admits ::
  "'r GoLib \<Rightarrow> FileSystem \<Rightarrow> SearchConfig \<Rightarrow> TextParser \<Rightarrow> string \<Rightarrow> os_FileInfo \<Rightarrow> bool" where
  "content_admits lib fs config textParser path info =
     (\<not> st_IsDir info
      \<and> \<not> (0 < SizeLimit config \<and> SizeLimit config < st_Size info)
      \<and> \<not> (0 < length (FileTypes config) \<and> \<not> isAllowedFileType lib path (FileTypes config))
      \<and> IsTextFile lib fs textParser path)"

definition findByContentOnly ::
  "'r GoLib \<Rightarrow> FileSystem \<Rightarrow> string \<Rightarrow> SearchConfig \<Rightarrow> (string \<rightharpoonup> FileInfo) \<times> walk_ret" where
  "findByContentOnly lib fs keyword config =
     (case Walk (content_walkFn lib fs keyword config (NewTextParser (MaxContentSize config)))
             (walk_tree fs (StartDir config)) Map.empty of
        (err, results) \<Rightarrow> (results, err))"

text \<open>\<open>findByBoth\<close>: the merge runs over the two maps key by key, so the merged map is given
  pointwise.\<close>

definition findByBoth ::
  "'r GoLib \<Rightarrow> FileSystem \<Rightarrow> string list \<Rightarrow> Indexer \<Rightarrow> string \<Rightarrow> SearchConfig
     \<Rightarrow> (string \<rightharpoonup> FileInfo) \<times> walk_ret \<times> Indexer" where
  "findByBoth lib fs names idx keyword config =
     (case IndexerSearch lib fs names idx keyword config of
        (filenameResults, err, idx1) \<Rightarrow>
          if err = RetNil then
            (case findByContentOnly lib fs keyword config of
               (contentResults, err) \<Rightarrow>
                 if err = RetNil then
                   ((\<lambda>path.
                       case contentResults path of
                         None \<Rightarrow> map_option (\<lambda>info. info\<lparr>MatchType := ''filename''\<rparr>)
                                   (filenameResults path)
                       | Some info \<Rightarrow>
                           (case filenameResults path of
                              None \<Rightarrow> Some (info\<lparr>MatchType := ''content''\<rparr>)
                            | Some existing \<Rightarrow>
                                Some (existing\<lparr>MatchType := ''both'',
                                               MatchLines := MatchLines info,
                                               MatchCount := MatchCount info,
                                               InfoContext := InfoContext info\<rparr>))),
                    RetNil, idx1)
                 else (Map.empty, err, idx1))
          else (Map.empty, err, idx1))"

text \<open>\<open>FindFilesByKeyword\<close>: build the index when the search is global or the index is
  empty, then search in the configured mode.  The result is the map, the error and the
  indexer after the call.\<close>

definition FindFilesByKeyword ::
  "'r GoLib \<Rightarrow> FileSystem \<Rightarrow> (string \<Rightarrow> bool) \<Rightarrow> (FileIndex list \<Rightarrow> FileIndex list list) \<Rightarrow> int
     \<Rightarrow> string list \<Rightarrow> Indexer \<Rightarrow> string \<Rightarrow> SearchConfig
     \<Rightarrow> (string \<rightharpoonup> FileInfo) \<times> walk_ret \<times> Indexer" where
  "FindFilesByKeyword lib fs delivered batches now names idx keyword config =
     (case (if GlobalSearch config \<or> fileIndices idx = Map.empty
            then BuildIndex lib fs delivered batches now idx (StartDir config) config
            else (RetNil, idx)) of
        (err, idx1) \<Rightarrow>
          if err = RetNil then
            (if SearchMode config = ''content'' then
               (case findByContentOnly lib fs keyword config of
                  (results, err) \<Rightarrow> (results, err, idx1))
             else if SearchMode config = ''both'' then
               findByBoth lib fs names idx1 keyword config
             else IndexerSearch lib fs names idx1 keyword config)
          else (Map.empty, err, idx1))"

text \<open>The invariant of the result map during the content walk: a path is in the map only
  if \<open>searchFileContent\<close> finds matches in it.\<close>

definition found_only ::
  "'r GoLib \<Rightarrow> FileSystem \<Rightarrow> string \<Rightarrow> SearchConfig \<Rightarrow> TextParser \<Rightarrow> (string \<rightharpoonup> FileInfo) \<Rightarrow> bool" where
  "found_only lib fs keyword config textParser results =
     (\<forall>path. results path = None
        \<or> (\<exists>fileInfo. searchFileContent lib fs path keyword config textParser
                         = Some (fileInfo, True)))"

section \<open>Index builds and readers as a transition system\<close>

text \<open>
  Every access of \<open>BuildIndex\<close> and \<open>Search\<close> to the shared maps happens inside a critical
  section of \<open>idx.mu\<close>, so a state observed by a reader holding the lock lies between two
  critical sections, and a run of the system is an interleaving of critical sections taken
  as atomic steps.  The state is the indexer together with the temporary maps of the
  builds in progress, each build under a number of its own.  The steps:
  a build starts with two empty temporary maps; a worker flushes a local cache into the
  temporary maps of its build; a build ends by replacing the indexer's maps with its
  temporary maps, or by returning the walk's error without touching the indexer; and
  \<open>Search\<close> refreshes the record of a path that the index holds as a file.
  (\<open>Search\<close> writes that record while it holds the read lock only; the step is taken as
  atomic like the others.  The unlocked read of \<open>len(indexer.fileIndices)\<close> in
  \<open>FindFilesByKeyword\<close> changes nothing and is not a step.)
\<close>

record System =
  indexer :: Indexer
  builds :: "nat \<rightharpoonup> (string \<rightharpoonup> FileIndex) \<times> (string \<rightharpoonup> string list)"

definition System_initial :: System where
  "System_initial = \<lparr>indexer = GetIndexer_initial, builds = Map.empty\<rparr>"

inductive index_step :: "System \<Rightarrow> System \<Rightarrow> bool" where
  build_start:
    "builds s b = None \<Longrightarrow>
     index_step s (s\<lparr>builds := (builds s)(b \<mapsto> (Map.empty, Map.empty))\<rparr>)"
| worker_flush:
    "builds s b = Some temp \<Longrightarrow>
     index_step s (s\<lparr>builds := (builds s)(b \<mapsto> flush_cache temp localCache)\<rparr>)"
| build_replace:
    "builds s b = Some (tempFileIndices, tempNameIndices) \<Longrightarrow>
     index_step s
       (s\<lparr>indexer := (indexer s)\<lparr>fileIndices := tempFileIndices,
                                    nameIndices := tempNameIndices, lastUpdate := now\<rparr>,
          builds := (builds s)(b := None)\<rparr>)"
| build_error:
    "builds s b = Some temp \<Longrightarrow>
     index_step s (s\<lparr>builds := (builds s)(b := None)\<rparr>)"
| search_refresh:
    "fileIndices (indexer s) path = Some fileIndex \<Longrightarrow> \<not> IsDir fileIndex \<Longrightarrow>
     index_step s
       (s\<lparr>indexer := (indexer s)\<lparr>fileIndices :=
                                      (fileIndices (indexer s))(path \<mapsto> FileIndex_of path info)\<rparr>\<rparr>)"

text \<open>The referential invariant: every path in a value list of \<open>nameIndices\<close> is a key of
  \<open>fileIndices\<close>.\<close>

definition index_invariant ::
  "(string \<rightharpoonup> FileIndex) \<Rightarrow> (string \<rightharpoonup> string list) \<Rightarrow> bool" where
  "index_invariant files names =
     (\<forall>name paths. names name = Some paths \<longrightarrow> (\<forall>path \<in> set paths. files path \<noteq> None))"

text \<open>The invariant of the whole system: it holds of the indexer's maps and of the
  temporary maps of every build in progress.\<close>

definition system_invariant :: "System \<Rightarrow> bool" where
  "system_invariant s =
     (index_invariant (fileIndices (indexer s)) (nameIndices (indexer s))
      \<and> (\<forall>b tf tn. builds s b = Some (tf, tn) \<longrightarrow> index_invariant tf tn))"

section \<open>Example inputs\<close>

text \<open>A directory \<open>docs\<close> with a text file, a binary file and a subdirectory; no other path
  exists.\<close>

definition example_dir :: os_FileInfo where
  "example_dir = \<lparr>st_Name = ''docs'', st_Size = 4096, st_ModTime = 100, st_IsDir = True,
                   st_Mode = 493\<rparr>"

definition example_text :: os_FileInfo where
  "example_text = \<lparr>st_Name = ''flag.txt'', st_Size = 16, st_ModTime = 100, st_IsDir = False,
                    st_Mode = 420\<rparr>"

definition example_blob :: os_FileInfo where
  "example_blob = \<lparr>st_Name = ''blob'', st_Size = 3, st_ModTime = 100, st_IsDir = False,
                    st_Mode = 420\<rparr>"

definition example_subdir :: os_FileInfo where
  "example_subdir = \<lparr>st_Name = ''flagdir'', st_Size = 4096, st_ModTime = 100, st_IsDir = True,
                      st_Mode = 493\<rparr>"

definition example_fs :: FileSystem where
  "example_fs =
     \<lparr>walk_tree = (\<lambda>root.
         if root = ''docs'' then
           Entry ''docs'' (Inr example_dir) None
             [Entry ''docs/blob'' (Inr example_blob) None [],
              Entry ''docs/flag.txt'' (Inr example_text) None [],
              Entry ''docs/flagdir'' (Inr example_subdir) None []]
         else Entry root (Inl ErrNotExist) None []),
      os_Stat = (\<lambda>path.
         if path = ''docs'' then Inr example_dir
         else if path = ''docs/blob'' then Inr example_blob
         else if path = ''docs/flag.txt'' then Inr example_text
         else if path = ''docs/flagdir'' then Inr example_subdir
         else Inl ErrNotExist),
      os_File = (\<lambda>path.
         if path = ''docs/blob'' then Bytes [CHR ''a'', CHR 0x00, CHR ''b'']
         else if path = ''docs/flag.txt''
           then Bytes (''ok'' @ [CHR 0x0A] @ ''ERROR: bad'' @ [CHR 0x0A] @ ''ok'')
         else if path = ''docs'' then ReadFails ErrIO
         else if path = ''docs/flagdir'' then ReadFails ErrIO
         else OpenFails ErrNotExist)\<rparr>"

text \<open>An index built earlier: the text file, the subdirectory, and a file that has been
  deleted since.\<close>

definition example_index :: Indexer where
  "example_index =
     \<lparr>fileIndices =
        [''docs/flag.txt'' \<mapsto> FileIndex_of ''docs/flag.txt'' example_text,
         ''docs/flagdir'' \<mapsto> FileIndex_of ''docs/flagdir'' example_subdir,
         ''docs/flag_old.txt'' \<mapsto>
            \<lparr>Path = ''docs/flag_old.txt'', Name = ''flag_old.txt'', Size = 1, ModTime = 50,
             IsDir = False, Permissions = 420\<rparr>],
      nameIndices =
        [''flag.txt'' \<mapsto> [''docs/flag.txt''],
         ''flagdir'' \<mapsto> [''docs/flagdir''],
         ''flag_old.txt'' \<mapsto> [''docs/flag_old.txt'']],
      lastUpdate = 60\<rparr>"

text \<open>The system after one build that indexed the text file.\<close>

definition example_system :: System where
  "example_system =
     \<lparr>indexer =
        \<lparr>fileIndices = [''docs/flag.txt'' \<mapsto> FileIndex_of ''docs/flag.txt'' example_text],
         nameIndices = [''flag.txt'' \<mapsto> [''docs/flag.txt'']],
         lastUpdate = 200\<rparr>,
      builds = Map.empty\<rparr>"

text \<open>A content search for \<open>ERROR\<close> under \<open>docs\<close> with one line of context.\<close>

definition example_content_config :: SearchConfig where
  "example_content_config =
     NewDefaultConfig\<lparr>StartDir := ''docs'', SearchMode := ''content'', ContextLines := 1\<rparr>"

text \<open>A file system in which no path exists, a text file \<open>c.txt\<close> and a directory \<open>.git\<close>.\<close>

definition example_nofs :: FileSystem where
  "example_nofs =
     \<lparr>walk_tree = (\<lambda>p. Entry p (Inl ErrNotExist) None []), os_Stat = (\<lambda>p. Inl ErrNotExist),
      os_File = (\<lambda>p. OpenFails ErrNotExist)\<rparr>"

definition example_c_txt :: os_FileInfo where
  "example_c_txt = \<lparr>st_Name = ''c.txt'', st_Size = 5, st_ModTime = 0, st_IsDir = False,
                     st_Mode = 420\<rparr>"

definition example_git_dir :: os_FileInfo where
  "example_git_dir = \<lparr>st_Name = ''.git'', st_Size = 4096, st_ModTime = 0, st_IsDir = True,
                       st_Mode = 493\<rparr>"

section \<open>Properties of the pattern matcher\<close>

lemma buildBadCharTable_loop_lookup:
  "m = i + int (length P) \<Longrightarrow>
   buildBadCharTable_loop m i P tbl c =
     (if c \<in> set P then Some (int (length (takeWhile (\<lambda>x. x \<noteq> c) (rev P)))) else tbl c)"
proof (induction P arbitrary: i tbl)
  case Nil
  then show ?case by simp
next
  case (Cons x xs)
  have m: "m = (i + 1) + int (length xs)" using Cons.prems by simp
  show ?case
  proof (cases "c \<in> set xs")
    case True
    then show ?thesis using Cons.IH[OF m] by (simp add: takeWhile_append1)
  next
    case False
    then have "takeWhile (\<lambda>y. y \<noteq> c) (rev xs @ [x]) = rev xs @ takeWhile (\<lambda>y. y \<noteq> c) [x]"
      by (intro takeWhile_append2) auto
    then have "c = x \<Longrightarrow> length (takeWhile (\<lambda>y. y \<noteq> c) (rev xs @ [x])) = length xs"
      by simp
    then show ?thesis using Cons.IH[OF m] False Cons.prems by auto
  qed
qed

lemma getBadCharShift_New:
  "getBadCharShift (NewBoyerMoore lower P cs) c
     = int (spec_skip (pattern (NewBoyerMoore lower P cs)) c)"
  by (simp add: getBadCharShift_def NewBoyerMoore_def buildBadCharTable_def spec_skip_def
      buildBadCharTable_loop_lookup)

lemma common_suffix_len_le: "common_suffix_len xs ys \<le> length ys"
  unfolding common_suffix_len_def
  by (rule order_trans[OF length_takeWhile_le]) simp

lemma common_suffix_len_le1: "common_suffix_len xs ys \<le> length xs"
  unfolding common_suffix_len_def
  by (rule order_trans[OF length_takeWhile_le]) simp

lemma common_suffix_len_snoc:
  "common_suffix_len (xs @ [x]) (ys @ [y]) = (if x = y then Suc (common_suffix_len xs ys) else 0)"
  by (simp add: common_suffix_len_def)

lemma compare_loop_nat:
  "j \<le> length P \<Longrightarrow> j \<le> k \<Longrightarrow> k \<le> length T \<Longrightarrow>
   compare_loop T P (int j - 1) (int k - 1) =
     Some (int j - 1 - int (common_suffix_len (take k T) (take j P)),
           int k - 1 - int (common_suffix_len (take k T) (take j P)))"
proof (induction j arbitrary: k)
  case 0
  then show ?case by (subst compare_loop.simps) (simp add: common_suffix_len_def)
next
  case (Suc j)
  then obtain k' where k: "k = Suc k'" by (cases k) auto
  have jl: "j < length P" and kl: "k' < length T" and jk: "j \<le> k'"
    using Suc.prems k by auto
  have IH: "compare_loop T P (int j - 1) (int k' - 1) =
     Some (int j - 1 - int (common_suffix_len (take k' T) (take j P)),
           int k' - 1 - int (common_suffix_len (take k' T) (take j P)))"
    using Suc.IH[of k'] jl kl jk by simp
  have rt: "rune_at T (int k') = Some (T ! k')" using kl by (simp add: rune_at_def)
  have rp: "rune_at P (int j) = Some (P ! j)" using jl by (simp add: rune_at_def)
  have tk: "take (Suc k') T = take k' T @ [T ! k']" using kl by (simp add: take_Suc_conv_app_nth)
  have tj: "take (Suc j) P = take j P @ [P ! j]" using jl by (simp add: take_Suc_conv_app_nth)
  show ?case
    unfolding k
    apply (subst compare_loop.simps)
    using IH rt rp by (simp add: tk tj common_suffix_len_snoc)
qed

lemma search_loop_spec:
  assumes tbl: "\<And>c. getBadCharShift bm c = int (spec_skip (pattern bm) c)"
  shows "pattern bm = P \<Longrightarrow> P \<noteq> [] \<Longrightarrow> length P - 1 \<le> i \<Longrightarrow>
         search_loop bm T (int i) acc = Some (acc @ map int (spec_scan P T i))"
proof (induction P T i arbitrary: acc rule: spec_scan.induct)
  case (1 P T i)
  note pat = \<open>pattern bm = P\<close> and low = \<open>length P - 1 \<le> i\<close> and ne = \<open>P \<noteq> []\<close>
  show ?case
  proof (cases "length T \<le> i")
    case True
    then show ?thesis
      by (subst search_loop.simps, subst spec_scan.simps) simp
  next
    case inT: False
    show ?thesis
    proof -
      define a where "a = common_suffix_len (take (Suc i) T) P"
      have a_le: "a \<le> length P" unfolding a_def by (rule common_suffix_len_le)
      have cmp: "compare_loop T P (int (length P) - 1) (int i)
                 = Some (int (length P) - 1 - int a, int i - int a)"
        using compare_loop_nat[of "length P" P "Suc i" T] inT low ne
        by (simp add: a_def)
      show ?thesis
      proof (cases "a = length P")
        case True
        have step: "search_loop bm T (int i) acc
                    = search_loop bm T (int (i + length P)) (acc @ [int (Suc i - length P)])"
        proof -
          have "int i - int a + 1 = int (Suc i - length P)"
            using True low ne by (simp add: of_nat_diff)
          then show ?thesis
            using inT cmp True by (subst search_loop.simps) (simp add: pat)
        qed
        have "search_loop bm T (int (i + length P)) (acc @ [int (Suc i - length P)])
              = Some ((acc @ [int (Suc i - length P)]) @ map int (spec_scan P T (i + length P)))"
          using "1.IH"(1)[OF _ _ pat ne] ne inT True low by (simp add: a_def)
        then show ?thesis
          using step True ne inT by (subst spec_scan.simps) (simp add: a_def)
      next
        case False
        then have a_lt: "a < length P" using a_le by simp
        then have a_i: "a \<le> i" using low by simp
        have rk: "rune_at T (int i - int a) = Some (T ! (i - a))"
          using a_i inT by (simp add: rune_at_def nat_diff_distrib')
        let ?s = "max 1 (spec_skip P (T ! (i - a)))"
        have step: "search_loop bm T (int i) acc = search_loop bm T (int (i + ?s)) acc"
        proof -
          have "max 1 (int (spec_skip P (T ! (i - a)))) = int ?s" by simp
          then show ?thesis
            using inT cmp a_lt rk
            by (subst search_loop.simps) (simp add: pat tbl[unfolded pat] del: of_nat_max)
        qed
        have "search_loop bm T (int (i + ?s)) acc
              = Some (acc @ map int (spec_scan P T (i + ?s)))"
          using "1.IH"(2)[OF _ _ pat ne] ne inT False low by (simp add: a_def)
        then show ?thesis
          using step False ne inT by (subst spec_scan.simps) (simp add: a_def)
      qed
    qed
  qed
qed


lemma spec_scan_lower_bound:
  "P \<noteq> [] \<Longrightarrow> x \<in> set (spec_scan P T i) \<Longrightarrow> Suc i - length P \<le> x"
proof (induction P T i rule: spec_scan.induct)
  case (1 P T i)
  show ?case
  proof (cases "length T \<le> i")
    case True
    then show ?thesis using "1.prems" by (subst (asm) spec_scan.simps) simp
  next
    case inT: False
    show ?thesis
    proof (cases "common_suffix_len (take (Suc i) T) P = length P")
      case True
      then have "x = Suc i - length P \<or> x \<in> set (spec_scan P T (i + length P))"
        using "1.prems" inT by (subst (asm) spec_scan.simps) simp
      then show ?thesis using "1.IH"(1) "1.prems"(1) inT True by fastforce
    next
      case False
      then have "x \<in> set (spec_scan P T
                  (i + max 1 (spec_skip P (T ! (i - common_suffix_len (take (Suc i) T) P)))))"
        using "1.prems" inT by (subst (asm) spec_scan.simps) simp
      then show ?thesis using "1.IH"(2) "1.prems"(1) inT False by fastforce
    qed
  qed
qed

lemma spec_scan_non_overlapping:
  "length P - 1 \<le> i \<Longrightarrow> sorted_wrt (\<lambda>a b. a + length P \<le> b) (spec_scan P T i)"
proof (induction P T i rule: spec_scan.induct)
  case (1 P T i)
  note low = \<open>length P - 1 \<le> i\<close>
  show ?case
  proof (cases "P = [] \<or> length T \<le> i")
    case True
    then show ?thesis by (subst spec_scan.simps) simp
  next
    case False
    then have ne: "P \<noteq> []" and inT: "\<not> length T \<le> i" by auto
    show ?thesis
    proof (cases "common_suffix_len (take (Suc i) T) P = length P")
      case True
      have "Suc i - length P + length P = Suc (i + length P) - length P"
        using low by simp
      then have "\<forall>x \<in> set (spec_scan P T (i + length P)). Suc i - length P + length P \<le> x"
        using spec_scan_lower_bound[OF ne, of _ T "i + length P"] by metis
      then show ?thesis
        using "1.IH"(1) False True low by (subst spec_scan.simps) simp
    next
      case F: False
      then show ?thesis
        using "1.IH"(2) False low by (subst spec_scan.simps) simp
    qed
  qed
qed

lemma Search_eq_spec:
  "Search lower (NewBoyerMoore lower P cs) T
     = Some (map int (spec_FindAll (if cs then P else map lower P)
                                   (if cs then T else map lower T)))"
proof -
  let ?bm = "NewBoyerMoore lower P cs"
  have pat: "pattern ?bm = (if cs then P else map lower P)"
    by (simp add: NewBoyerMoore_def buildBadCharTable_def)
  have cs: "caseSensitive ?bm = cs"
    by (simp add: NewBoyerMoore_def buildBadCharTable_def)
  show ?thesis
  proof (cases "pattern ?bm = [] \<or> length (if cs then T else map lower T) < length (pattern ?bm)")
    case True
    then show ?thesis
      unfolding Search_def spec_FindAll_def Let_def cs pat by auto
  next
    case False
    then have ne: "pattern ?bm \<noteq> []" by simp
    have "search_loop ?bm (if cs then T else map lower T) (int (length (pattern ?bm) - 1)) []
          = Some ([] @ map int (spec_scan (pattern ?bm) (if cs then T else map lower T)
                                  (length (pattern ?bm) - 1)))"
      by (rule search_loop_spec[OF getBadCharShift_New refl ne]) simp
    moreover have "int (length (pattern ?bm) - 1) = int (length (pattern ?bm)) - 1"
      using ne by (cases "pattern ?bm") auto
    ultimately show ?thesis
      using False unfolding Search_def spec_FindAll_def Let_def cs pat by auto
  qed
qed

lemma badCharTable_New:
  "badCharTable (NewBoyerMoore lower P cs) c
     = (if c \<in> set (if cs then P else map lower P)
        then Some (int (spec_skip (if cs then P else map lower P) c)) else None)"
  by (simp add: NewBoyerMoore_def buildBadCharTable_def spec_skip_def
      buildBadCharTable_loop_lookup)

text \<open>
  Claim C8.  The matcher follows the algorithm steps of the specification.  At
  construction \<open>NewBoyerMoore\<close> keeps the pattern \<open>P\<close> (lower-cased when the matcher is not
  case sensitive) and builds the skip table from it: the table holds exactly the
  characters of that pattern, each with the distance of its rightmost occurrence from the
  pattern's end, and \<open>getBadCharShift\<close> gives the full pattern length for any other
  character.  \<open>Search\<close> always returns, and its result on the text \<open>T\<close> (lower-cased in the
  same way) is the scan that advances the cursor by \<open>max 1 (skip (text ! k))\<close> on a mismatch
  at comparison position \<open>k\<close> and, on a full match, records the starting offset and
  advances by the pattern length; the recorded matches do not overlap (successive offsets
  are at least a pattern length apart).
\<close>

theorem Search_follows_algorithm_steps:
  "pattern (NewBoyerMoore lower P cs) = (if cs then P else map lower P)
   \<and> caseSensitive (NewBoyerMoore lower P cs) = cs
   \<and> badCharTable (NewBoyerMoore lower P cs) c
       = (if c \<in> set (if cs then P else map lower P)
          then Some (int (spec_skip (if cs then P else map lower P) c)) else None)
   \<and> getBadCharShift (NewBoyerMoore lower P cs) c
       = int (spec_skip (if cs then P else map lower P) c)
   \<and> Search lower (NewBoyerMoore lower P cs) T
       = Some (map int (spec_FindAll (if cs then P else map lower P)
                                     (if cs then T else map lower T)))
   \<and> sorted_wrt (\<lambda>a b. a + length P \<le> b)
        (spec_FindAll (if cs then P else map lower P) (if cs then T else map lower T))"
proof -
  have pat: "pattern (NewBoyerMoore lower P cs) = (if cs then P else map lower P)"
    by (simp add: NewBoyerMoore_def buildBadCharTable_def)
  have cse: "caseSensitive (NewBoyerMoore lower P cs) = cs"
    by (simp add: NewBoyerMoore_def buildBadCharTable_def)
  have len: "length (if cs then P else map lower P) = length P" by simp
  have "sorted_wrt (\<lambda>a b. a + length Q \<le> b) (spec_FindAll Q U)" for Q U :: "'a list"
    unfolding spec_FindAll_def using spec_scan_non_overlapping[of Q "length Q - 1" U] by simp
  then have so: "sorted_wrt (\<lambda>a b. a + length P \<le> b)
        (spec_FindAll (if cs then P else map lower P) (if cs then T else map lower T))"
    using len by metis
  have sh: "getBadCharShift (NewBoyerMoore lower P cs) c
       = int (spec_skip (if cs then P else map lower P) c)"
    using getBadCharShift_New[of lower P cs c] unfolding pat .
  show ?thesis
    using pat cse badCharTable_New[of lower P cs c] sh Search_eq_spec[of lower P cs T] so
    by blast
qed

text \<open>The steps on the pattern \<open>ab\<close> and the text \<open>xabcabab\<close>: the table holds \<open>a\<close> with
  distance 1 and \<open>b\<close> with distance 0, any other character shifts by 2, and the matches
  are at the offsets 1, 4 and 6.\<close>

theorem Search_follows_algorithm_steps_witness:
  "pattern (NewBoyerMoore id ''ab'' True) = ''ab''
   \<and> badCharTable (NewBoyerMoore id ''ab'' True) CHR ''a'' = Some 1
   \<and> badCharTable (NewBoyerMoore id ''ab'' True) CHR ''b'' = Some 0
   \<and> badCharTable (NewBoyerMoore id ''ab'' True) CHR ''x'' = None
   \<and> getBadCharShift (NewBoyerMoore id ''ab'' True) CHR ''x'' = 2
   \<and> Search id (NewBoyerMoore id ''ab'' True) ''xabcabab'' = Some [1, 4, 6]
   \<and> sorted_wrt (\<lambda>a b. a + length ''ab'' \<le> b) [1, 4, 6 :: nat]"
proof -
  have f: "spec_FindAll ''ab'' ''xabcabab'' = [1, 4, 6]" by code_simp
  have s: "spec_skip ''ab'' CHR ''a'' = 1 \<and> spec_skip ''ab'' CHR ''b'' = 0
           \<and> spec_skip ''ab'' CHR ''x'' = 2"
    by code_simp
  show ?thesis
    using Search_follows_algorithm_steps [of id "''ab''" True "CHR ''a''" "''xabcabab''"]
      Search_follows_algorithm_steps [of id "''ab''" True "CHR ''b''" "''xabcabab''"]
      Search_follows_algorithm_steps [of id "''ab''" True "CHR ''x''" "''xabcabab''"]
    by (simp add: f s)
qed

text \<open>
  Claim C1.  \<open>Search\<close> should return the offsets of a naive left-to-right scan for
  non-overlapping occurrences.  On the text \<open>xaa\<close> and the pattern \<open>aa\<close> the scan compares
  right to left, fails on \<open>x\<close> at position 0, finds \<open>x\<close> absent from the table and advances the
  cursor by the full pattern length, from 1 to 3, past the occurrence at offset 1:
  \<open>Search\<close> returns no match where the naive scan returns offset 1.
\<close>

theorem Search_misses_occurrence:
  "Search id (NewBoyerMoore id ''aa'' True) ''xaa'' = Some []
   \<and> naive_scan ''aa'' ''xaa'' 0 = [1]"
  by code_simp

section \<open>Properties of the context extractor\<close>

lemma filter_window_upt:
  "filter (\<lambda>i. lo \<le> int i \<and> int i \<le> hi) [0..<len]
     = [nat (max 0 lo)..<nat (min (int len) (hi + 1))]"
  by (rule sorted_distinct_set_unique) (auto simp: sorted_wrt_filter)

lemma map_nth_slice:
  "e \<le> length xs \<Longrightarrow> map ((!) xs) [s..<e] = take (e - s) (drop s xs)"
  by (rule nth_equalityI) auto

lemma spec_window_eq_window:
  "1 \<le> n \<Longrightarrow> spec_window c lines n = window c lines (nat (n - 1))"
proof -
  assume n: "1 \<le> n"
  have e: "win_end c (length lines) (nat (n - 1)) \<le> length lines"
    by (simp add: win_end_def)
  have "spec_window c lines n
        = map ((!) lines) [win_start c (nat (n - 1))..<win_end c (length lines) (nat (n - 1))]"
    unfolding spec_window_def filter_window_upt win_start_def win_end_def using n
    by (simp add: algebra_simps)
  then show ?thesis unfolding window_def using map_nth_slice[OF e] by simp
qed

lemma getContext_window_idx:
  assumes c0: "0 \<le> sint (contextLines cs)" and il: "idx < length lines"
    and nov: "int idx + sint (contextLines cs) + 1 < 2 ^ 63"
  shows "getContext cs lines (int idx) = Some (window (sint (contextLines cs)) lines idx)"
proof -
  let ?c = "sint (contextLines cs)"
  have cu: "?c < 2 ^ 63" using sint_lt[of "contextLines cs"] by simp
  have w1: "int64 (int idx - ?c) = int idx - ?c"
    unfolding int64_def using c0 cu nov by (intro signed_take_bit_int_eq_self) auto
  have w2: "int64 (int idx + ?c) = int idx + ?c"
    unfolding int64_def using c0 nov by (intro signed_take_bit_int_eq_self) auto
  have w3: "int64 (int idx + ?c + 1) = int idx + ?c + 1"
    unfolding int64_def using c0 nov by (intro signed_take_bit_int_eq_self) auto
  show ?thesis
    unfolding getContext_def Let_def w1 w2 w3 window_def win_start_def win_end_def
    using c0 il
    by (auto simp: nat_diff_distrib' min_def max_def)
qed

text \<open>
  Claim C7 (as amended).  For every line sequence, every match line number \<open>n\<close> with
  \<open>1 \<le> n \<le> len(lines)\<close> and every \<open>contextLines\<close> value \<open>c \<ge> 0\<close> for which \<open>n + c\<close> does
  not overflow the 64-bit \<open>int\<close>, \<open>getContext\<close> returns exactly the lines with 0-based
  indices in \<open>[n-1-c, n-1+c]\<close> clipped to \<open>[0, len(lines))\<close>; in a 10-line file with
  \<open>contextLines = 2\<close> these are the lines \<open>max(1,n-2)\<close> to \<open>min(10,n+2)\<close> in 1-based numbering.
\<close>

theorem getContext_window:
  "0 \<le> sint (contextLines cs) \<Longrightarrow> 1 \<le> n \<Longrightarrow> n \<le> int (length lines) \<Longrightarrow>
   n + sint (contextLines cs) < 2 ^ 63 \<Longrightarrow>
   getContext cs lines (n - 1) = Some (spec_window (sint (contextLines cs)) lines n)
   \<and> (length lines = 10 \<and> contextLines cs = 2 \<longrightarrow>
        getContext cs lines (n - 1)
          = Some (map (\<lambda>m. lines ! (m - 1)) [nat (max 1 (n - 2))..<Suc (nat (min 10 (n + 2)))]))"
proof -
  assume c0: "0 \<le> sint (contextLines cs)" and n1: "1 \<le> n" and nl: "n \<le> int (length lines)"
    and nov: "n + sint (contextLines cs) < 2 ^ 63"
  have g: "getContext cs lines (int (nat (n - 1)))
           = Some (window (sint (contextLines cs)) lines (nat (n - 1)))"
    using c0 n1 nl nov by (intro getContext_window_idx) auto
  have main: "getContext cs lines (n - 1) = Some (spec_window (sint (contextLines cs)) lines n)"
    using g n1 by (simp add: spec_window_eq_window)
  have "spec_window 2 lines n
        = map (\<lambda>m. lines ! (m - 1)) [nat (max 1 (n - 2))..<Suc (nat (min 10 (n + 2)))]"
    if len: "length lines = 10"
  proof -
    have "map (\<lambda>m. lines ! (m - 1)) [nat (max 1 (n - 2))..<Suc (nat (min 10 (n + 2)))]
          = map ((!) lines) (map (\<lambda>m. m - 1) [nat (max 1 (n - 2))..<Suc (nat (min 10 (n + 2)))])"
      by simp
    also have "map (\<lambda>m. m - 1) [nat (max 1 (n - 2))..<Suc (nat (min 10 (n + 2)))]
          = [nat (max 0 (n - 1 - 2))..<nat (min 10 (n - 1 + 2 + 1))]"
    proof -
      have a: "nat (max 1 (n - 2)) = Suc (nat (max 0 (n - 1 - 2)))"
        using n1 by (cases "3 \<le> n") (auto simp: max_def)
      have "map (\<lambda>m. m - 1) [Suc (nat (max 0 (n - 1 - 2)))..<Suc (nat (min 10 (n + 2)))]
            = map (\<lambda>m. m - 1) (map Suc [nat (max 0 (n - 1 - 2))..<nat (min 10 (n + 2))])"
        by (simp only: map_Suc_upt)
      also have "\<dots> = [nat (max 0 (n - 1 - 2))..<nat (min 10 (n + 2))]"
        by (simp add: comp_def)
      finally show ?thesis unfolding a by (simp add: algebra_simps)
    qed
    finally show ?thesis
      unfolding spec_window_def filter_window_upt len by simp
  qed
  then show ?thesis using main by auto
qed

theorem getContext_window_witness:
  "0 \<le> sint (contextLines (NewContextSearch id ''k'' True 2))
   \<and> (1::int) \<le> 9
   \<and> (9::int) \<le> int (length [''l1'', ''l2'', ''l3'', ''l4'', ''l5'', ''l6'', ''l7'', ''l8'', ''l9'', ''l10''])
   \<and> 9 + sint (contextLines (NewContextSearch id ''k'' True 2)) < 2 ^ 63
   \<and> getContext (NewContextSearch id ''k'' True 2)
         [''l1'', ''l2'', ''l3'', ''l4'', ''l5'', ''l6'', ''l7'', ''l8'', ''l9'', ''l10''] (9 - 1)
       = Some [''l7'', ''l8'', ''l9'', ''l10'']"
proof -
  have w: "spec_window 2 [''l1'', ''l2'', ''l3'', ''l4'', ''l5'', ''l6'', ''l7'', ''l8'', ''l9'', ''l10''] 9
           = [''l7'', ''l8'', ''l9'', ''l10'']"
    by code_simp
  show ?thesis
    using getContext_window [of "NewContextSearch id ''k'' True 2" 9
        "[''l1'', ''l2'', ''l3'', ''l4'', ''l5'', ''l6'', ''l7'', ''l8'', ''l9'', ''l10'']"]
    by (simp add: NewContextSearch_def w)
qed

text \<open>
  The claim as stated, for every \<open>contextLines\<close> value, fails for a negative one: with
  \<open>contextLines = -1\<close> and a match on line 1 of a one-line file, \<open>start = 1\<close> and \<open>end = 0\<close>,
  \<open>make([]string, -1)\<close> panics and no window is returned, while the clipped index range of
  the claim is the empty window.
\<close>

theorem getContext_negative_counterexample:
  "getContext (NewContextSearch id ''k'' True (- 1)) [''a''] (1 - 1)
     \<noteq> Some (spec_window (sint (- 1 :: 64 word)) [''a''] 1)"
  by (simp add: getContext_def NewContextSearch_def int64_def)

section \<open>Properties of the context aggregation\<close>

lemma contains_iff: "contains xs x \<longleftrightarrow> x \<in> set xs"
  by (induction xs) auto

lemma set_context_loop: "set (context_loop ctx w) = set ctx \<union> set w"
  by (induction w arbitrary: ctx) (auto simp: contains_iff)

lemma distinct_context_loop: "distinct ctx \<Longrightarrow> distinct (context_loop ctx w)"
  by (induction w arbitrary: ctx) (auto simp: contains_iff)

lemma context_loop_appends:
  "\<exists>new. context_loop ctx w = ctx @ new \<and> subseq new (filter (\<lambda>x. x \<notin> set ctx) w)"
proof (induction w arbitrary: ctx)
  case Nil
  then show ?case by simp
next
  case (Cons x w)
  show ?case
  proof (cases "x \<in> set ctx")
    case True
    then show ?thesis using Cons.IH[of ctx] by (simp add: contains_iff)
  next
    case False
    obtain new where n: "context_loop (ctx @ [x]) w = (ctx @ [x]) @ new"
      and s: "subseq new (filter (\<lambda>y. y \<notin> set (ctx @ [x])) w)"
      using Cons.IH[of "ctx @ [x]"] by blast
    have "filter (\<lambda>y. y \<notin> set (ctx @ [x])) w
          = filter (\<lambda>y. y \<noteq> x) (filter (\<lambda>y. y \<notin> set ctx) w)"
      by (induction w) auto
    then have "subseq new (filter (\<lambda>y. y \<notin> set ctx) w)"
      using s subseq_filter_left subseq_order.trans by metis
    then have "subseq (x # new) (filter (\<lambda>y. y \<notin> set ctx) (x # w))"
      using False by simp
    then show ?thesis using n False by (auto simp: contains_iff)
  qed
qed

lemma match_loop_context:
  "snd (snd (match_loop ms (ml, tot, ctx))) = foldl context_loop ctx (map Context ms)"
  by (induction ms arbitrary: ml tot ctx) auto

lemma win_start_mono: "i \<le> j \<Longrightarrow> win_start c i \<le> win_start c j"
  by (simp add: win_start_def nat_mono)

lemma win_end_mono: "i \<le> j \<Longrightarrow> win_end c len i \<le> win_end c len j"
  by (simp add: win_end_def nat_mono)

lemma win_end_le: "win_end c len i \<le> len"
  by (simp add: win_end_def)

lemma window_drop_take:
  "window c lines i = drop (win_start c i) (take (win_end c (length lines) i) lines)"
  by (simp add: window_def drop_take)

text \<open>One step of the aggregation keeps the invariant.\<close>

lemma context_loop_window_step:
  assumes d: "distinct ctx" and sub: "subseq ctx (take b lines)"
    and cov: "set (drop sp (take b lines)) \<subseteq> set ctx"
    and sp: "sp \<le> s" and be: "b \<le> e" and el: "e \<le> length lines"
  shows "subseq (context_loop ctx (drop s (take e lines))) (take e lines)"
proof -
  obtain new where n: "context_loop ctx (drop s (take e lines)) = ctx @ new"
    and s: "subseq new (filter (\<lambda>x. x \<notin> set ctx) (drop s (take e lines)))"
    using context_loop_appends by blast
  have "subseq (filter (\<lambda>x. x \<notin> set ctx) (drop s (take e lines))) (drop b (take e lines))"
  proof (cases "s \<le> b")
    case True
    have "drop s (take e lines) = drop s (take b lines) @ drop b (take e lines)"
    proof -
      have "take e lines = take b lines @ drop b (take e lines)"
        using be by (metis append_take_drop_id min.absorb1 take_take)
      then have "drop s (take e lines) = drop s (take b lines @ drop b (take e lines))"
        by simp
      also have "\<dots> = drop s (take b lines) @ drop b (take e lines)"
        using True el be by simp
      finally show ?thesis .
    qed
    moreover have "set (drop s (take b lines)) \<subseteq> set ctx"
      using cov sp set_drop_subset_set_drop[of sp s "take b lines"] by blast
    then have "filter (\<lambda>x. x \<notin> set ctx) (drop s (take b lines)) = []"
      by (auto simp: filter_empty_conv)
    ultimately show ?thesis by simp
  next
    case False
    then have "drop s (take e lines) = drop (s - b) (drop b (take e lines))" by simp
    then have "suffix (drop s (take e lines)) (drop b (take e lines))"
      by (metis suffix_drop)
    then have "subseq (drop s (take e lines)) (drop b (take e lines))" by blast
    then show ?thesis
      using subseq_filter_left subseq_order.trans by metis
  qed
  then have "subseq new (drop b (take e lines))"
    using s subseq_order.trans by metis
  then have "subseq (ctx @ new) (take b lines @ drop b (take e lines))"
    using sub by (rule list_emb_append_mono[rotated])
  moreover have "take b lines @ drop b (take e lines) = take e lines"
    using be by (metis append_take_drop_id min.absorb1 take_take)
  ultimately show ?thesis using n by simp
qed

lemma aggregate_windows_invariant:
  "sorted idxs \<Longrightarrow> distinct ctx \<Longrightarrow> subseq ctx (take b lines) \<Longrightarrow>
   set (drop sp (take b lines)) \<subseteq> set ctx \<Longrightarrow> b \<le> length lines \<Longrightarrow>
   (\<forall>i \<in> set idxs. sp \<le> win_start c i \<and> b \<le> win_end c (length lines) i) \<Longrightarrow>
   distinct (foldl context_loop ctx (map (window c lines) idxs))
   \<and> subseq (foldl context_loop ctx (map (window c lines) idxs)) lines
   \<and> set (foldl context_loop ctx (map (window c lines) idxs))
       = set ctx \<union> (\<Union>i \<in> set idxs. set (window c lines i))"
proof (induction idxs arbitrary: ctx b sp)
  case Nil
  have "subseq (take b lines) lines" by (metis prefix_imp_subseq take_is_prefix)
  then show ?case using Nil subseq_order.trans by auto
next
  case (Cons i idxs)
  let ?s = "win_start c i" and ?e = "win_end c (length lines) i"
  let ?ctx = "context_loop ctx (window c lines i)"
  have w: "window c lines i = drop ?s (take ?e lines)" by (rule window_drop_take)
  have el: "?e \<le> length lines" by (rule win_end_le)
  have sp: "sp \<le> ?s" and be: "b \<le> ?e" using Cons.prems(6) by auto
  have 1: "distinct ?ctx" using Cons.prems(2) by (rule distinct_context_loop)
  have 2: "subseq ?ctx (take ?e lines)"
    unfolding w using Cons.prems(2,3,4) sp be el by (rule context_loop_window_step)
  have 3: "set (drop ?s (take ?e lines)) \<subseteq> set ?ctx"
    unfolding set_context_loop w by blast
  have 4: "\<forall>j \<in> set idxs. ?s \<le> win_start c j \<and> ?e \<le> win_end c (length lines) j"
    using Cons.prems(1) by (auto intro: win_start_mono win_end_mono)
  have 5: "sorted idxs" using Cons.prems(1) by simp
  show ?case
    using Cons.IH[OF 5 1 2 3 el 4] by (auto simp: set_context_loop)
qed


lemma SearchLines_loop_result:
  "\<exists>new. SearchLines_loop lower rn (NewBoyerMoore lower pat csens) k lines acc = Some (acc @ new)
     \<and> sorted_wrt (<) (map LineNumber new)
     \<and> (\<forall>m \<in> set new. k < LineNumber m \<and> LineNumber m \<le> k + int (length lines))"
proof (induction lines arbitrary: k acc)
  case Nil
  then show ?case by simp
next
  case (Cons line lines)
  let ?bm = "NewBoyerMoore lower pat csens"
  obtain positions where p: "Search lower ?bm (rn line) = Some positions"
    using Search_eq_spec by blast
  let ?m0 = "\<lparr>LineNumber = k + 1, Line = line, Positions = positions,
              Count = int (length positions)\<rparr>"
  let ?acc = "if 0 < length positions then acc @ [?m0] else acc"
  obtain new where n: "SearchLines_loop lower rn ?bm (k + 1) lines ?acc = Some (?acc @ new)"
    and srt: "sorted_wrt (<) (map LineNumber new)"
    and rng: "\<forall>m \<in> set new. k + 1 < LineNumber m \<and> LineNumber m \<le> k + 1 + int (length lines)"
    using Cons.IH[of "k + 1" ?acc] by blast
  show ?case
  proof (cases "0 < length positions")
    case True
    have "SearchLines_loop lower rn ?bm k (line # lines) acc = Some (acc @ (?m0 # new))"
      using p n True by simp
    moreover have "sorted_wrt (<) (map LineNumber (?m0 # new))"
      using srt rng by auto
    moreover have "\<forall>m \<in> set (?m0 # new).
                     k < LineNumber m \<and> LineNumber m \<le> k + int (length (line # lines))"
      using rng by auto
    ultimately show ?thesis by blast
  next
    case False
    have "SearchLines_loop lower rn ?bm k (line # lines) acc = Some (acc @ new)"
      using p n False by simp
    moreover have "\<forall>m \<in> set new.
                     k < LineNumber m \<and> LineNumber m \<le> k + int (length (line # lines))"
      using rng by auto
    ultimately show ?thesis using srt by blast
  qed
qed

lemma SearchWithContext_loop_result:
  assumes c0: "0 \<le> sint (contextLines cs)"
    and nov: "int (length lines) + sint (contextLines cs) < 2 ^ 63"
  shows "(\<forall>m \<in> set matches. 1 \<le> LineNumber m \<and> LineNumber m \<le> int (length lines)) \<Longrightarrow>
         SearchWithContext_loop cs lines matches acc
           = Some (acc @ map (\<lambda>m. \<lparr>LineMatch = m,
                                       Context = window (sint (contextLines cs)) lines
                                                   (nat (LineNumber m - 1))\<rparr>) matches)"
proof (induction matches arbitrary: acc)
  case Nil
  then show ?case by simp
next
  case (Cons m matches)
  have r: "1 \<le> LineNumber m" "LineNumber m \<le> int (length lines)" using Cons.prems by auto
  have "getContext cs lines (int (nat (LineNumber m - 1)))
        = Some (window (sint (contextLines cs)) lines (nat (LineNumber m - 1)))"
    using c0 nov r by (intro getContext_window_idx) auto
  then have g: "getContext cs lines (LineNumber m - 1)
        = Some (window (sint (contextLines cs)) lines (nat (LineNumber m - 1)))"
    using r by simp
  show ?case using Cons.IH Cons.prems g by simp
qed

text \<open>
  What the aggregation guarantees, with lines compared by their text as \<open>contains\<close> does:
  for a non-negative \<open>contextLines\<close> (small enough that line number plus \<open>contextLines\<close>
  does not overflow) the search returns its matches, each with the window of claim C7 as
  context; no text is repeated in the aggregate, a text is in the aggregate exactly when
  it is the text of a line of some match's window, and the aggregate is a subsequence of
  the file's lines.
\<close>

lemma aggregate_context_text_properties:
  "0 \<le> sint c \<Longrightarrow> int (length lines) + sint c < 2 ^ 63 \<Longrightarrow>
   \<exists>ms. SearchWithContext lower rn (NewContextSearch lower keyword csens c) lines = Some ms
     \<and> map Context ms
         = map (\<lambda>m. spec_window (sint c) lines (LineNumber (LineMatch m))) ms
     \<and> distinct (aggregate_context ms)
     \<and> set (aggregate_context ms) = set (concat (map Context ms))
     \<and> subseq (aggregate_context ms) lines"
proof -
  assume c0: "0 \<le> sint c" and nov: "int (length lines) + sint c < 2 ^ 63"
  let ?cs = "NewContextSearch lower keyword csens c"
  have cl: "contextLines ?cs = c" and se: "searcher ?cs = NewBoyerMoore lower keyword csens"
    by (simp_all add: NewContextSearch_def)
  obtain matches where sl: "SearchLines lower rn (searcher ?cs) lines = Some matches"
    and srt: "sorted_wrt (<) (map LineNumber matches)"
    and rng: "\<forall>m \<in> set matches. 0 < LineNumber m \<and> LineNumber m \<le> 0 + int (length lines)"
    using SearchLines_loop_result[of lower rn keyword csens 0 lines "[]"]
    unfolding SearchLines_def se by auto
  let ?mk = "\<lambda>m. \<lparr>LineMatch = m, Context = window (sint c) lines (nat (LineNumber m - 1))\<rparr>"
  let ?ms = "map ?mk matches"
  let ?idxs = "map (\<lambda>m. nat (LineNumber m - 1)) matches"
  have rng': "\<forall>m \<in> set matches. 1 \<le> LineNumber m \<and> LineNumber m \<le> int (length lines)"
    using rng by auto
  have swc: "SearchWithContext lower rn ?cs lines = Some ?ms"
    unfolding SearchWithContext_def sl
    using SearchWithContext_loop_result[of ?cs lines matches "[]"] c0 nov rng'
    by (simp add: cl)
  have ctxs: "map Context ?ms = map (window (sint c) lines) ?idxs"
    by (simp add: comp_def)
  have win: "map Context ?ms
             = map (\<lambda>m. spec_window (sint c) lines (LineNumber (LineMatch m))) ?ms"
    using rng' by (simp add: comp_def spec_window_eq_window)
  have sorted_idxs: "sorted ?idxs"
  proof -
    have "sorted_wrt (\<lambda>x y. LineNumber x < LineNumber y) matches"
      using srt by (simp add: sorted_wrt_map)
    then have "sorted_wrt (\<lambda>x y. nat (LineNumber x - 1) \<le> nat (LineNumber y - 1)) matches"
      by (rule sorted_wrt_mono_rel[rotated]) auto
    then show ?thesis by (simp add: sorted_wrt_map)
  qed
  have agg: "aggregate_context ?ms = foldl context_loop [] (map (window (sint c) lines) ?idxs)"
    unfolding aggregate_context_def match_loop_context ctxs ..
  have inv: "distinct (foldl context_loop [] (map (window (sint c) lines) ?idxs))
   \<and> subseq (foldl context_loop [] (map (window (sint c) lines) ?idxs)) lines
   \<and> set (foldl context_loop [] (map (window (sint c) lines) ?idxs))
       = set [] \<union> (\<Union>i \<in> set ?idxs. set (window (sint c) lines i))"
    by (rule aggregate_windows_invariant[where b = 0 and sp = 0]) (use sorted_idxs in auto)
  have "set (aggregate_context ?ms) = set (concat (map Context ?ms))"
    unfolding agg ctxs using inv by auto
  moreover have "distinct (aggregate_context ?ms)" unfolding agg using inv by blast
  moreover have "subseq (aggregate_context ?ms) lines" unfolding agg using inv by blast
  ultimately show ?thesis using swc win by blast
qed

text \<open>
  Claim C6.  The aggregate context should be the de-duplicated union of the lines of the
  matches' windows, with every line of a window in it.  The aggregation leaves out a line
  whenever the aggregate already holds a line of the same text, also when that is another
  line of the file.  In the five-line file \<open>x, K, x, K, x\<close> the keyword \<open>K\<close> matches on lines 2
  and 4; with \<open>contextLines = 1\<close> the windows are lines 1 to 3 and lines 3 to 5, they
  overlap in line 3 and their union is the whole file, but the aggregate holds two lines
  only.  In the three-line file \<open>ok, ERROR: bad, ok\<close> of the specification's scenario the one
  window is lines 1 to 3 and the aggregate holds lines 1 and 2 only.
\<close>

theorem aggregate_context_drops_repeated_lines:
  "(\<exists>ms. SearchWithContext id id (NewContextSearch id ''K'' True 1) [''x'', ''K'', ''x'', ''K'', ''x'']
            = Some ms
        \<and> map (\<lambda>m. LineNumber (LineMatch m)) ms = [2, 4]
        \<and> map Context ms = [[''x'', ''K'', ''x''], [''x'', ''K'', ''x'']]
        \<and> aggregate_context ms = [''x'', ''K''])
   \<and> (\<exists>ms. SearchWithContext id id (NewContextSearch id ''ERROR'' True 1)
              [''ok'', ''ERROR: bad'', ''ok''] = Some ms
        \<and> map (\<lambda>m. LineNumber (LineMatch m)) ms = [2]
        \<and> map Context ms = [[''ok'', ''ERROR: bad'', ''ok'']]
        \<and> aggregate_context ms = [''ok'', ''ERROR: bad''])"
proof -
  have a: "map_option (\<lambda>ms. (map (\<lambda>m. LineNumber (LineMatch m)) ms, map Context ms,
                              aggregate_context ms))
             (SearchWithContext id id (NewContextSearch id ''K'' True 1)
                [''x'', ''K'', ''x'', ''K'', ''x''])
           = Some ([2, 4], [[''x'', ''K'', ''x''], [''x'', ''K'', ''x'']], [''x'', ''K''])"
    by code_simp
  have b: "map_option (\<lambda>ms. (map (\<lambda>m. LineNumber (LineMatch m)) ms, map Context ms,
                              aggregate_context ms))
             (SearchWithContext id id (NewContextSearch id ''ERROR'' True 1)
                [''ok'', ''ERROR: bad'', ''ok''])
           = Some ([2], [[''ok'', ''ERROR: bad'', ''ok'']], [''ok'', ''ERROR: bad''])"
    by code_simp
  show ?thesis using a b by auto
qed

section \<open>Properties of the filters\<close>

text \<open>
  Claim C5 (as amended).  For every configuration with \<open>maxDepth > 0\<close> and every path whose
  separator count exceeds \<open>maxDepth\<close>, \<open>shouldSkipFile\<close> excludes the path; with
  \<open>maxDepth \<le> 0\<close> the depth filter is not applied: the predicate is the one of the default
  \<open>maxDepth = -1\<close>, no limit.
\<close>

theorem shouldSkipFile_depth:
  "(0 < MaxDepth config \<longrightarrow> MaxDepth config < Count path (PathSeparator lib)
      \<longrightarrow> shouldSkipFile lib path info config)
   \<and> (MaxDepth config \<le> 0
      \<longrightarrow> shouldSkipFile lib path info config
          = shouldSkipFile lib path info (config\<lparr>MaxDepth := - 1\<rparr>))"
  by (simp add: shouldSkipFile_def)

theorem shouldSkipFile_depth_witness:
  "0 < MaxDepth (NewDefaultConfig\<lparr>MaxDepth := 1\<rparr>)
   \<and> MaxDepth (NewDefaultConfig\<lparr>MaxDepth := 1\<rparr>) < Count ''a/b/c'' (PathSeparator ascii_lib)
   \<and> shouldSkipFile ascii_lib ''a/b/c''
         \<lparr>st_Name = ''c'', st_Size = 0, st_ModTime = 0, st_IsDir = False, st_Mode = 420\<rparr>
         (NewDefaultConfig\<lparr>MaxDepth := 1\<rparr>)
   \<and> MaxDepth (NewDefaultConfig\<lparr>MaxDepth := 0\<rparr>) \<le> 0
   \<and> shouldSkipFile ascii_lib ''a/b/c''
         \<lparr>st_Name = ''c'', st_Size = 0, st_ModTime = 0, st_IsDir = False, st_Mode = 420\<rparr>
         (NewDefaultConfig\<lparr>MaxDepth := 0\<rparr>)
       = shouldSkipFile ascii_lib ''a/b/c''
         \<lparr>st_Name = ''c'', st_Size = 0, st_ModTime = 0, st_IsDir = False, st_Mode = 420\<rparr>
         (NewDefaultConfig\<lparr>MaxDepth := 0, MaxDepth := - 1\<rparr>)"
  using shouldSkipFile_depth [of "NewDefaultConfig\<lparr>MaxDepth := 1\<rparr>" "''a/b/c''" ascii_lib
      "\<lparr>st_Name = ''c'', st_Size = 0, st_ModTime = 0, st_IsDir = False, st_Mode = 420\<rparr>"]
    shouldSkipFile_depth [of "NewDefaultConfig\<lparr>MaxDepth := 0\<rparr>" "''a/b/c''" ascii_lib
      "\<lparr>st_Name = ''c'', st_Size = 0, st_ModTime = 0, st_IsDir = False, st_Mode = 420\<rparr>"]
  by (simp add: NewDefaultConfig_def ascii_lib_def Count_def)

text \<open>
  The claim as stated, for \<open>maxDepth \<ge> 0\<close>, fails at \<open>maxDepth = 0\<close>: the guard of the depth
  check is \<open>config.MaxDepth > 0\<close>, so the path \<open>a/b\<close>, with one separator, is not excluded.
\<close>

theorem shouldSkipFile_depth_zero_counterexample:
  "0 \<le> MaxDepth (NewDefaultConfig\<lparr>MaxDepth := 0\<rparr>)
   \<and> MaxDepth (NewDefaultConfig\<lparr>MaxDepth := 0\<rparr>) < Count ''a/b'' (PathSeparator ascii_lib)
   \<and> \<not> shouldSkipFile ascii_lib ''a/b''
         \<lparr>st_Name = ''b'', st_Size = 0, st_ModTime = 0, st_IsDir = False, st_Mode = 420\<rparr>
         (NewDefaultConfig\<lparr>MaxDepth := 0\<rparr>)"
  by (simp add: shouldSkipFile_def NewDefaultConfig_def ascii_lib_def Count_def)

lemma content_walkFn_file:
  "\<not> st_IsDir info \<Longrightarrow>
   content_walkFn lib fs keyword config textParser path (Inr info) results
     = (if content_admits lib fs config textParser path info
        then (case searchFileContent lib fs path keyword config textParser of
                None \<Rightarrow> (Panicked, results)
              | Some (fileInfo, found) \<Rightarrow>
                  if found then (RetNil, results(path \<mapsto> fileInfo)) else (RetNil, results))
        else (RetNil, results))"
  by (simp add: content_walkFn_def content_admits_def)

lemma Ext_scan_dot: "Ext_scan sep xs tail \<noteq> [] \<Longrightarrow> hd (Ext_scan sep xs tail) = CHR ''.''"
  by (induction xs arbitrary: tail) (auto split: if_splits)

lemma Ext_cases: "Ext sep path = [] \<or> (\<exists>rest. Ext sep path = CHR ''.'' # rest)"
  using Ext_scan_dot[of sep "rev path" "[]"] unfolding Ext_def
  by (cases "Ext_scan sep (rev path) []") auto

lemma allowed_agree:
  assumes l0: "ToLower lib [] = []"
    and ld: "\<And>s. ToLower lib (CHR ''.'' # s) = CHR ''.'' # ToLower lib s"
    and ty: "list_all (\<lambda>t. t \<noteq> [] \<and> ToLower lib t = t) types"
  shows "isAllowedFileType lib path types
         = list_ex (\<lambda>allowedType. ToLower lib (Ext (PathSeparator lib) path) = CHR ''.'' # allowedType)
             types"
proof -
  from Ext_cases[of "PathSeparator lib" path] show ?thesis
  proof
    assume e: "Ext (PathSeparator lib) path = []"
    then show ?thesis using ty l0
      by (auto simp: isAllowedFileType_def list_ex_iff list_all_iff)
  next
    assume "\<exists>rest. Ext (PathSeparator lib) path = CHR ''.'' # rest"
    then obtain rest where e: "Ext (PathSeparator lib) path = CHR ''.'' # rest" by blast
    show ?thesis using ty
      by (auto simp: isAllowedFileType_def list_ex_iff list_all_iff e ld)
  qed
qed

lemma content_walkFn_dir:
  "st_IsDir info \<Longrightarrow>
   content_walkFn lib fs keyword config textParser path (Inr info) results
     = (if list_ex (\<lambda>exclude. Base (PathSeparator lib) path = exclude) (ExcludeDirs config)
        then SkipDir else RetNil, results)"
  by (simp add: content_walkFn_def shouldExcludeDir_def)

lemma searchFileContent_MaxDepth:
  "searchFileContent lib fs path keyword (config\<lparr>MaxDepth := d\<rparr>) textParser
     = searchFileContent lib fs path keyword config textParser"
proof -
  have a: "CaseSensitive (config\<lparr>MaxDepth := d\<rparr>) = CaseSensitive config"
    and b: "ContextLines (config\<lparr>MaxDepth := d\<rparr>) = ContextLines config"
    by simp_all
  show ?thesis unfolding searchFileContent_def a b by (rule refl)
qed

lemma content_walkFn_MaxDepth:
  "content_walkFn lib fs keyword (config\<lparr>MaxDepth := d\<rparr>) textParser path arg results
     = content_walkFn lib fs keyword config textParser path arg results"
  by (cases arg) (simp_all add: content_walkFn_def searchFileContent_MaxDepth)

lemma content_filters_agree:
  assumes l0: "ToLower lib [] = []"
    and ld: "\<forall>s. ToLower lib (CHR ''.'' # s) = CHR ''.'' # ToLower lib s"
    and isfile: "\<not> st_IsDir info"
    and ex: "\<not> list_ex (\<lambda>excludeDir. Contains path excludeDir) (ExcludeDirs config)"
    and ty: "list_all (\<lambda>t. t \<noteq> [] \<and> ToLower lib t = t) (FileTypes config)"
    and depth: "MaxDepth config \<le> 0 \<or> Count path (PathSeparator lib) \<le> MaxDepth config"
    and sz: "SizeLimit config \<le> 0 \<or> st_Size info \<le> SizeLimit config"
    and istext: "IsTextFile lib fs textParser path"
  shows "content_admits lib fs config textParser path info
         \<longleftrightarrow> \<not> shouldSkipFile lib path info config"
proof -
  have "isAllowedFileType lib path (FileTypes config)
        = list_ex (\<lambda>allowedType.
                     ToLower lib (Ext (PathSeparator lib) path) = CHR ''.'' # allowedType)
            (FileTypes config)"
    using l0 ld ty by (intro allowed_agree) auto
  then show ?thesis
    using isfile ex depth sz istext by (auto simp: content_admits_def shouldSkipFile_def)
qed

text \<open>
  Claim C4 (as amended).  In content search mode the tree walk applies filters of its own,
  not those of the index builder.
  A directory is pruned (\<open>SkipDir\<close>) exactly when its base name equals an \<open>excludeDirs\<close>
  entry; nothing else is asked of a directory.
  A file is passed to the content search exactly when it is within a positive
  \<open>sizeLimit\<close>, its lower-cased extension without the dot equals a lower-cased \<open>fileTypes\<close>
  entry (when \<open>fileTypes\<close> is non-empty) and it is a text file; otherwise it is skipped.
  No depth filter is applied: the callback does the same for every value of \<open>maxDepth\<close>.
  These filters agree with the index builder's on a file that passes the size and text
  checks when no \<open>excludeDirs\<close> entry occurs in its path, the \<open>fileTypes\<close> entries are
  non-empty and in lower case and the depth filter is inactive or not exceeded: for such a
  file the content walk admits it if and only if the index builder's filter does.
  (\<open>strings.ToLower\<close> keeps the empty string and a leading dot.)
\<close>

theorem content_walk_filters:
  "(st_IsDir info \<longrightarrow>
      content_walkFn lib fs keyword config textParser path (Inr info) results
        = (if list_ex (\<lambda>exclude. Base (PathSeparator lib) path = exclude) (ExcludeDirs config)
           then SkipDir else RetNil, results))
   \<and> (\<not> st_IsDir info \<longrightarrow>
      content_walkFn lib fs keyword config textParser path (Inr info) results
        = (if \<not> (0 < SizeLimit config \<and> SizeLimit config < st_Size info)
              \<and> \<not> (0 < length (FileTypes config)
                     \<and> \<not> isAllowedFileType lib path (FileTypes config))
              \<and> IsTextFile lib fs textParser path
           then (case searchFileContent lib fs path keyword config textParser of
                   None \<Rightarrow> (Panicked, results)
                 | Some (fileInfo, found) \<Rightarrow>
                     if found then (RetNil, results(path \<mapsto> fileInfo)) else (RetNil, results))
           else (RetNil, results)))
   \<and> isAllowedFileType lib path types
       = list_ex (\<lambda>allowedType.
                    (if ToLower lib (Ext (PathSeparator lib) path) = [] then []
                     else tl (ToLower lib (Ext (PathSeparator lib) path)))
                    = ToLower lib allowedType) types
   \<and> content_admits lib fs config textParser path info
       = (\<not> st_IsDir info
          \<and> \<not> (0 < SizeLimit config \<and> SizeLimit config < st_Size info)
          \<and> \<not> (0 < length (FileTypes config)
                 \<and> \<not> isAllowedFileType lib path (FileTypes config))
          \<and> IsTextFile lib fs textParser path)
   \<and> content_walkFn lib fs keyword (config\<lparr>MaxDepth := d\<rparr>) textParser path arg results
       = content_walkFn lib fs keyword config textParser path arg results
   \<and> (ToLower lib [] = [] \<and>
       (\<forall>s. ToLower lib (CHR ''.'' # s) = CHR ''.'' # ToLower lib s) \<and>
       \<not> st_IsDir info \<and>
       \<not> list_ex (\<lambda>excludeDir. Contains path excludeDir) (ExcludeDirs config) \<and>
       list_all (\<lambda>t. t \<noteq> [] \<and> ToLower lib t = t) (FileTypes config) \<and>
       (MaxDepth config \<le> 0 \<or> Count path (PathSeparator lib) \<le> MaxDepth config) \<and>
       (SizeLimit config \<le> 0 \<or> st_Size info \<le> SizeLimit config) \<and>
       IsTextFile lib fs textParser path
      \<longrightarrow> (content_admits lib fs config textParser path info
            \<longleftrightarrow> \<not> shouldSkipFile lib path info config))"
proof -
  have 1: "st_IsDir info \<longrightarrow>
      content_walkFn lib fs keyword config textParser path (Inr info) results
        = (if list_ex (\<lambda>exclude. Base (PathSeparator lib) path = exclude) (ExcludeDirs config)
           then SkipDir else RetNil, results)"
    using content_walkFn_dir by blast
  have 2: "\<not> st_IsDir info \<longrightarrow>
      content_walkFn lib fs keyword config textParser path (Inr info) results
        = (if \<not> (0 < SizeLimit config \<and> SizeLimit config < st_Size info)
              \<and> \<not> (0 < length (FileTypes config)
                     \<and> \<not> isAllowedFileType lib path (FileTypes config))
              \<and> IsTextFile lib fs textParser path
           then (case searchFileContent lib fs path keyword config textParser of
                   None \<Rightarrow> (Panicked, results)
                 | Some (fileInfo, found) \<Rightarrow>
                     if found then (RetNil, results(path \<mapsto> fileInfo)) else (RetNil, results))
           else (RetNil, results))"
    by (simp add: content_walkFn_def)
  have 3: "isAllowedFileType lib path types
       = list_ex (\<lambda>allowedType.
                    (if ToLower lib (Ext (PathSeparator lib) path) = [] then []
                     else tl (ToLower lib (Ext (PathSeparator lib) path)))
                    = ToLower lib allowedType) types"
    by (simp add: isAllowedFileType_def Let_def)
  have 4: "content_admits lib fs config textParser path info
       = (\<not> st_IsDir info
          \<and> \<not> (0 < SizeLimit config \<and> SizeLimit config < st_Size info)
          \<and> \<not> (0 < length (FileTypes config)
                 \<and> \<not> isAllowedFileType lib path (FileTypes config))
          \<and> IsTextFile lib fs textParser path)"
    by (simp add: content_admits_def)
  have 5: "content_walkFn lib fs keyword (config\<lparr>MaxDepth := d\<rparr>) textParser path arg results
       = content_walkFn lib fs keyword config textParser path arg results"
    by (rule content_walkFn_MaxDepth)
  have 6: "ToLower lib [] = [] \<and>
       (\<forall>s. ToLower lib (CHR ''.'' # s) = CHR ''.'' # ToLower lib s) \<and>
       \<not> st_IsDir info \<and>
       \<not> list_ex (\<lambda>excludeDir. Contains path excludeDir) (ExcludeDirs config) \<and>
       list_all (\<lambda>t. t \<noteq> [] \<and> ToLower lib t = t) (FileTypes config) \<and>
       (MaxDepth config \<le> 0 \<or> Count path (PathSeparator lib) \<le> MaxDepth config) \<and>
       (SizeLimit config \<le> 0 \<or> st_Size info \<le> SizeLimit config) \<and>
       IsTextFile lib fs textParser path
      \<longrightarrow> (content_admits lib fs config textParser path info
            \<longleftrightarrow> \<not> shouldSkipFile lib path info config)"
    using content_filters_agree[of lib info path config fs textParser] by blast
  show ?thesis using 1 2 3 4 5 6 by (intro conjI)
qed

theorem content_walk_filters_witness:
  "st_IsDir example_git_dir
   \<and> fst (content_walkFn ascii_lib example_nofs ''k'' NewDefaultConfig (NewTextParser 10485760)
             ''a/.git'' (Inr example_git_dir) Map.empty) = SkipDir
   \<and> ToLower ascii_lib [] = []
   \<and> (\<forall>s. ToLower ascii_lib (CHR ''.'' # s) = CHR ''.'' # ToLower ascii_lib s)
   \<and> \<not> st_IsDir example_c_txt
   \<and> \<not> list_ex (\<lambda>excludeDir. Contains ''a/c.txt'' excludeDir)
           (ExcludeDirs (NewDefaultConfig\<lparr>FileTypes := [''txt'']\<rparr>))
   \<and> list_all (\<lambda>t. t \<noteq> [] \<and> ToLower ascii_lib t = t)
         (FileTypes (NewDefaultConfig\<lparr>FileTypes := [''txt'']\<rparr>))
   \<and> IsTextFile ascii_lib example_nofs (NewTextParser 10485760) ''a/c.txt''
   \<and> content_admits ascii_lib example_nofs (NewDefaultConfig\<lparr>FileTypes := [''txt'']\<rparr>)
         (NewTextParser 10485760) ''a/c.txt'' example_c_txt
   \<and> \<not> shouldSkipFile ascii_lib ''a/c.txt'' example_c_txt
         (NewDefaultConfig\<lparr>FileTypes := [''txt'']\<rparr>)"
proof -
  have dir: "st_IsDir example_git_dir" by (simp add: example_git_dir_def)
  have base: "list_ex (\<lambda>exclude. Base (PathSeparator ascii_lib) ''a/.git'' = exclude)
                (ExcludeDirs NewDefaultConfig)"
    by (simp add: Base_def ascii_lib_def NewDefaultConfig_def)
  have d: "fst (content_walkFn ascii_lib example_nofs ''k'' NewDefaultConfig
                  (NewTextParser 10485760) ''a/.git'' (Inr example_git_dir) Map.empty) = SkipDir"
    using content_walk_filters [of example_git_dir ascii_lib example_nofs "''k''" NewDefaultConfig
        "NewTextParser 10485760" "''a/.git''" Map.empty] dir base
    by simp
  have isfile: "\<not> st_IsDir example_c_txt" by (simp add: example_c_txt_def)
  have ns: "\<not> shouldSkipFile ascii_lib ''a/c.txt'' example_c_txt
              (NewDefaultConfig\<lparr>FileTypes := [''txt'']\<rparr>)"
    by (simp add: shouldSkipFile_def NewDefaultConfig_def ascii_lib_def Count_def Ext_def
        ascii_lower_def example_c_txt_def)
  have ex: "\<not> list_ex (\<lambda>excludeDir. Contains ''a/c.txt'' excludeDir)
           (ExcludeDirs (NewDefaultConfig\<lparr>FileTypes := [''txt'']\<rparr>))"
    by (simp add: NewDefaultConfig_def)
  have ty: "list_all (\<lambda>t. t \<noteq> [] \<and> ToLower ascii_lib t = t)
         (FileTypes (NewDefaultConfig\<lparr>FileTypes := [''txt'']\<rparr>))"
    by (simp add: NewDefaultConfig_def ascii_lib_def ascii_lower_def)
  have tx: "IsTextFile ascii_lib example_nofs (NewTextParser 10485760) ''a/c.txt''"
    by (simp add: IsTextFile_def ascii_lib_def Ext_def ascii_lower_def textExts_def)
  have ld: "\<forall>s. ToLower ascii_lib (CHR ''.'' # s) = CHR ''.'' # ToLower ascii_lib s"
    by (simp add: ascii_lib_def ascii_lower_def)
  have l0: "ToLower ascii_lib [] = []" by (simp add: ascii_lib_def)
  have dp: "MaxDepth (NewDefaultConfig\<lparr>FileTypes := [''txt'']\<rparr>) \<le> 0"
    and sl: "SizeLimit (NewDefaultConfig\<lparr>FileTypes := [''txt'']\<rparr>) \<le> 0"
    by (simp_all add: NewDefaultConfig_def)
  have "content_admits ascii_lib example_nofs (NewDefaultConfig\<lparr>FileTypes := [''txt'']\<rparr>)
          (NewTextParser 10485760) ''a/c.txt'' example_c_txt
        \<longleftrightarrow> \<not> shouldSkipFile ascii_lib ''a/c.txt'' example_c_txt
              (NewDefaultConfig\<lparr>FileTypes := [''txt'']\<rparr>)"
    using content_walk_filters [of example_c_txt ascii_lib example_nofs "''k''"
        "NewDefaultConfig\<lparr>FileTypes := [''txt'']\<rparr>" "NewTextParser 10485760" "''a/c.txt''"]
      l0 ld isfile ex ty dp sl tx
    by blast
  then show ?thesis using dir d ns ex ty ld l0 isfile tx by blast
qed

text \<open>
  The claim as stated fails: the content walk has no depth filter.  With \<open>maxDepth = 1\<close>
  the file \<open>a/b/c.txt\<close>, two separators deep, is admitted by the content walk and skipped by
  the index builder's filter.
\<close>

theorem content_walk_depth_counterexample:
  "content_admits ascii_lib
      \<lparr>walk_tree = (\<lambda>p. Entry p (Inl ErrNotExist) None []), os_Stat = (\<lambda>p. Inl ErrNotExist),
       os_File = (\<lambda>p. OpenFails ErrNotExist)\<rparr>
      (NewDefaultConfig\<lparr>MaxDepth := 1\<rparr>) (NewTextParser 10485760) ''a/b/c.txt''
      \<lparr>st_Name = ''c.txt'', st_Size = 0, st_ModTime = 0, st_IsDir = False, st_Mode = 420\<rparr>
   \<and> shouldSkipFile ascii_lib ''a/b/c.txt''
      \<lparr>st_Name = ''c.txt'', st_Size = 0, st_ModTime = 0, st_IsDir = False, st_Mode = 420\<rparr>
      (NewDefaultConfig\<lparr>MaxDepth := 1\<rparr>)"
  by (simp add: content_admits_def shouldSkipFile_def NewDefaultConfig_def ascii_lib_def Count_def
      IsTextFile_def Ext_def textExts_def ascii_lower_def)

section \<open>Properties of the walk and of the index\<close>

text \<open>An invariant of the callback's state, and a set of results that holds every result
  of the callback and \<open>nil\<close>, carry over to the walk.\<close>

lemma walk_invariant:
  assumes nil: "RetNil \<in> R"
  shows "(\<forall>path arg s. I s \<longrightarrow> I (snd (fn path arg s)) \<and> fst (fn path arg s) \<in> R) \<Longrightarrow>
         I s \<Longrightarrow> I (snd (walk fn e info s)) \<and> fst (walk fn e info s) \<in> R"
    and "(\<forall>path arg s. I s \<longrightarrow> I (snd (fn path arg s)) \<and> fst (fn path arg s) \<in> R) \<Longrightarrow>
         I s \<Longrightarrow> I (snd (walk_names fn es s)) \<and> fst (walk_names fn es s) \<in> R"
proof (induction fn e info s and fn es s rule: walk_walk_names.induct)
  case (1 fn path lst rd names info s)
  have step: "\<And>path arg s. I s \<Longrightarrow> I (snd (fn path arg s)) \<and> fst (fn path arg s) \<in> R"
    using "1.prems"(1) by blast
  note Is = "1.prems"(2)
  show ?case
  proof (cases "st_IsDir info")
    case False
    then show ?thesis using step[OF Is] by simp
  next
    case dir: True
    show ?thesis
    proof (cases rd)
      case (Some err)
      then show ?thesis using dir step[OF Is] by simp
    next
      case None
      obtain err1 s1 where f: "fn path (Inr info) s = (err1, s1)" by fastforce
      have s1: "I s1" and r1: "err1 \<in> R"
        using step[OF Is, of path "Inr info"] f by auto
      show ?thesis
      proof (cases "err1 = RetNil")
        case True
        then show ?thesis
          using "1.IH"[OF dir None f[symmetric] True "1.prems"(1) s1] dir None f by simp
      next
        case False
        then show ?thesis using dir None f s1 r1 by simp
      qed
    qed
  qed
next
  case (2 fn s)
  then show ?case using nil by simp
next
  case (3 fn filename lst rd names rest s)
  have step: "\<And>path arg s. I s \<Longrightarrow> I (snd (fn path arg s)) \<and> fst (fn path arg s) \<in> R"
    using "3.prems"(1) by blast
  note Is = "3.prems"(2)
  show ?case
  proof (cases lst)
    case (Inl err)
    obtain r s1 where f: "fn filename (Inl err) s = (r, s1)" by fastforce
    have s1: "I s1" and r1: "r \<in> R"
      using step[OF Is, of filename "Inl err"] f by auto
    show ?thesis
    proof (cases "r = RetNil \<or> r = SkipDir")
      case True
      then show ?thesis
        using "3.IH"(1)[OF Inl f[symmetric] True "3.prems"(1) s1] Inl f by simp
    next
      case False
      then show ?thesis using Inl f s1 r1 by simp
    qed
  next
    case (Inr fileInfo)
    obtain r s1 where f: "walk fn (Entry filename lst rd names) fileInfo s = (r, s1)" by fastforce
    have s1: "I s1" and r1: "r \<in> R"
      using "3.IH"(2)[OF Inr "3.prems"(1) Is] f by auto
    show ?thesis
    proof (cases "r = RetNil")
      case True
      then show ?thesis
        using "3.IH"(3)[OF Inr f[symmetric] True "3.prems"(1) s1] Inr f by simp
    next
      case nr: False
      show ?thesis
      proof (cases "st_IsDir fileInfo \<and> r = SkipDir")
        case True
        then show ?thesis
          using "3.IH"(4)[OF Inr f[symmetric] nr True "3.prems"(1) s1] Inr f nr by simp
      next
        case False
        then show ?thesis using Inr f nr s1 r1 by auto
      qed
    qed
  qed
qed

lemma Walk_invariant:
  assumes nil: "RetNil \<in> R"
    and step: "\<forall>path arg s. I s \<longrightarrow> I (snd (fn path arg s)) \<and> fst (fn path arg s) \<in> R"
    and Is: "I s"
  shows "I (snd (Walk fn root s)) \<and> fst (Walk fn root s) \<in> R - {SkipDir} \<union> {RetNil}"
proof (cases "eLstat root")
  case (Inl err)
  then show ?thesis
    using step Is by (auto simp: Walk_def split: prod.splits) (metis fst_conv snd_conv)+
next
  case (Inr info)
  have "I (snd (walk fn root info s)) \<and> fst (walk fn root info s) \<in> R"
    using walk_invariant(1)[OF nil step Is] .
  then show ?thesis
    using Inr by (auto simp: Walk_def split: prod.splits)
qed

lemma index_walkFn_ret:
  "fst (index_walkFn lib config delivered path arg s) \<in> {RetNil, SkipDir}"
  by (auto simp: index_walkFn_def split: sum.splits)

lemma BuildIndex_no_error:
  "fst (BuildIndex lib fs delivered batches now idx startDir config) = RetNil"
proof -
  have "fst (Walk (index_walkFn lib config delivered) (walk_tree fs startDir) [])
          \<in> {RetNil, SkipDir} - {SkipDir} \<union> {RetNil}"
    using Walk_invariant[where I = "\<lambda>s. True" and R = "{RetNil, SkipDir}"
        and fn = "index_walkFn lib config delivered"] index_walkFn_ret
    by blast
  then show ?thesis
    by (auto simp: BuildIndex_def split: prod.splits)
qed

text \<open>
  Claim C2.  A traversal-level error should make \<open>BuildIndex\<close> return an error and leave the
  installed maps as they are.  The callback of the walk returns \<open>nil\<close> for every error that
  is not a permission error and \<open>SkipDir\<close> for a permission error, so the walk never
  returns an error and the error check before the replacement never fires.  For a start
  directory that does not exist, Walk calls the callback once with the \<open>Lstat\<close> error;
  \<open>BuildIndex\<close> then returns \<open>nil\<close> and replaces the index, which held the record of
  \<open>docs/flag.txt\<close>, by two empty maps.
\<close>

theorem BuildIndex_missing_root_replaces_index:
  "BuildIndex ascii_lib example_fs (\<lambda>p. True) (\<lambda>sent. [sent]) 200 example_index ''missing''
       NewDefaultConfig
     = (RetNil, example_index\<lparr>fileIndices := Map.empty, nameIndices := Map.empty,
                               lastUpdate := 200\<rparr>)
   \<and> fileIndices example_index ''docs/flag.txt'' \<noteq> None"
  by (simp add: BuildIndex_def Walk_def example_fs_def index_walkFn_def IsPermission_def
      example_index_def)

lemma search_paths_inv:
  "search_inv idx0 fs st \<Longrightarrow> search_inv idx0 fs (search_paths lib fs config paths st)"
proof (induction paths arbitrary: st)
  case Nil
  then show ?case by simp
next
  case (Cons path rest)
  obtain idx results where st: "st = (idx, results)" by (cases st)
  have inv: "search_inv idx0 fs (idx, results)" using Cons.prems st by simp
  let ?st1 = "(case fileIndices idx path of
          None \<Rightarrow> (idx, results)
        | Some fileIndex \<Rightarrow>
            if IsDir fileIndex then (idx, results)
            else
              (case os_Stat fs path of
                 Inl err \<Rightarrow> (idx, results)
               | Inr info \<Rightarrow>
                   (let idx1 =
                          (if st_ModTime info = ModTime fileIndex then idx
                           else idx\<lparr>fileIndices :=
                                        (fileIndices idx)(path \<mapsto> FileIndex_of path info)\<rparr>)
                    in case GetFileInfo lib fs path info config of
                         Inl err \<Rightarrow> (idx1, results)
                       | Inr fileInfo \<Rightarrow> (idx1, results(path \<mapsto> fileInfo)))))"
  have "search_inv idx0 fs ?st1"
  proof (cases "fileIndices idx path")
    case None
    then show ?thesis using inv by simp
  next
    case (Some fileIndex)
    show ?thesis
    proof (cases "IsDir fileIndex")
      case True
      then show ?thesis using Some inv by simp
    next
      case nd: False
      show ?thesis
      proof (cases "os_Stat fs path")
        case (Inl err)
        then show ?thesis using Some nd inv by simp
      next
        case (Inr info)
        have ok: "search_ok idx0 fs path"
        proof (cases "fileIndices idx path = fileIndices idx0 path")
          case True
          then have "fileIndices idx0 path = Some fileIndex" using Some by simp
          then show ?thesis using nd Inr by (auto simp: search_ok_def)
        next
          case False
          then show ?thesis using inv by (auto simp: search_inv_def)
        qed
        show ?thesis
          using Some nd Inr inv ok
          by (auto simp: search_inv_def Let_def split: sum.splits)
      qed
    qed
  qed
  then show ?case using Cons.IH[of ?st1] st by simp
qed

lemma search_names_inv:
  "search_inv idx0 fs st \<Longrightarrow> search_inv idx0 fs (search_names lib fs keyword config names st)"
proof (induction names arbitrary: st)
  case Nil
  then show ?case by simp
next
  case (Cons name rest)
  obtain idx results where st: "st = (idx, results)" by (cases st)
  have inv: "search_inv idx0 fs (idx, results)" using Cons.prems st by simp
  have "search_inv idx0 fs
          (case nameIndices idx name of
             None \<Rightarrow> (idx, results)
           | Some paths \<Rightarrow>
               if Contains (ToLower lib name) (ToLower lib keyword)
               then search_paths lib fs config paths (idx, results)
               else (idx, results))"
    using inv search_paths_inv[OF inv] by (auto split: option.splits)
  then show ?case using Cons.IH st by simp
qed

text \<open>
  Claim C10.  For every keyword and every index state, a path in the result map of
  \<open>Indexer.Search\<close> has a record in the index with \<open>IsDir = false\<close>, and \<open>os.Stat\<close> of the
  path succeeds at query time; so neither a directory stored in the index nor an indexed
  path that is gone from the disk is in the result map.
\<close>

theorem IndexerSearch_only_existing_files:
  "IndexerSearch lib fs names idx keyword config = (results, err, idx1) \<Longrightarrow>
   results path = Some fileInfo \<Longrightarrow>
   (\<exists>fileIndex. fileIndices idx path = Some fileIndex \<and> \<not> IsDir fileIndex)
   \<and> (\<exists>info. os_Stat fs path = Inr info)"
proof -
  assume r: "IndexerSearch lib fs names idx keyword config = (results, err, idx1)"
    and p: "results path = Some fileInfo"
  have "search_inv idx fs (idx, Map.empty)" by (simp add: search_inv_def)
  then have "search_inv idx fs (search_names lib fs keyword config names (idx, Map.empty))"
    by (rule search_names_inv)
  moreover have "search_names lib fs keyword config names (idx, Map.empty) = (idx1, results)"
    using r by (auto simp: IndexerSearch_def split: prod.splits)
  ultimately have "results path = None \<or> search_ok idx fs path"
    by (auto simp: search_inv_def)
  then show ?thesis using p by (simp add: search_ok_def)
qed

theorem IndexerSearch_only_existing_files_witness:
  "(\<exists>fileInfo.
      fst (IndexerSearch ascii_lib example_fs [''flag.txt'', ''flagdir'', ''flag_old.txt'']
             example_index ''FLAG'' NewDefaultConfig) ''docs/flag.txt'' = Some fileInfo)
   \<and> (\<exists>fileIndex. fileIndices example_index ''docs/flag.txt'' = Some fileIndex
                       \<and> \<not> IsDir fileIndex)
   \<and> (\<exists>info. os_Stat example_fs ''docs/flag.txt'' = Inr info)
   \<and> fst (IndexerSearch ascii_lib example_fs [''flag.txt'', ''flagdir'', ''flag_old.txt'']
             example_index ''FLAG'' NewDefaultConfig) ''docs/flagdir'' = None
   \<and> fst (IndexerSearch ascii_lib example_fs [''flag.txt'', ''flagdir'', ''flag_old.txt'']
             example_index ''FLAG'' NewDefaultConfig) ''docs/flag_old.txt'' = None"
proof -
  let ?r = "IndexerSearch ascii_lib example_fs [''flag.txt'', ''flagdir'', ''flag_old.txt'']
              example_index ''FLAG'' NewDefaultConfig"
  have v: "fst ?r ''docs/flag.txt'' \<noteq> None \<and> fst ?r ''docs/flagdir'' = None
           \<and> fst ?r ''docs/flag_old.txt'' = None"
    by code_simp
  then obtain fileInfo where f: "fst ?r ''docs/flag.txt'' = Some fileInfo" by blast
  have r: "?r = (fst ?r, fst (snd ?r), snd (snd ?r))" by simp
  show ?thesis
    using IndexerSearch_only_existing_files [OF r f] f v by blast
qed

section \<open>Properties of the content search\<close>

lemma isBinaryFile_NUL:
  "CHR 0x00 \<in> set (take 512 data) \<Longrightarrow> isBinaryFile (Bytes data)"
proof -
  assume "CHR 0x00 \<in> set (take 512 data)"
  then have "filter (\<lambda>b. b = CHR 0x00) (take 512 data) \<noteq> []"
    by (auto simp: filter_empty_conv)
  then show ?thesis by (simp add: isBinaryFile_def Let_def)
qed

lemma GetFileLines_binary:
  assumes f: "os_File fs p = Bytes data" and z: "CHR 0x00 \<in> set (take 512 data)"
  shows "\<exists>err. GetFileLines lib fs textParser p = Inl err"
proof -
  have "ParseFile lib fs textParser p = Inr binaryMarker \<or> (\<exists>err. ParseFile lib fs textParser p = Inl err)"
    using f isBinaryFile_NUL[OF z] by (auto simp: ParseFile_def split: sum.splits)
  then show ?thesis by (auto simp: GetFileLines_def)
qed

lemma searchFileContent_binary:
  assumes f: "os_File fs p = Bytes data" and z: "CHR 0x00 \<in> set (take 512 data)"
  shows "searchFileContent lib fs p keyword config textParser = Some (FileInfo_zero, False)"
  using GetFileLines_binary[OF f z, of lib textParser]
  by (auto simp: searchFileContent_def split: sum.splits)

lemma content_walkFn_binary:
  assumes f: "os_File fs p = Bytes data" and z: "CHR 0x00 \<in> set (take 512 data)"
    and nd: "\<not> st_IsDir info"
  shows "content_walkFn lib fs keyword config textParser p (Inr info) results = (RetNil, results)"
  using nd searchFileContent_binary[OF f z, of lib keyword config textParser]
  by (simp add: content_walkFn_def)

lemma content_walkFn_step:
  "found_only lib fs keyword config textParser results \<Longrightarrow>
   found_only lib fs keyword config textParser
     (snd (content_walkFn lib fs keyword config textParser path arg results))
   \<and> fst (content_walkFn lib fs keyword config textParser path arg results)
       \<in> {RetNil, SkipDir, Panicked}"
  by (auto simp: content_walkFn_def found_only_def split: sum.splits option.splits)

lemma content_walkFn_step_no_panic:
  "\<forall>path. searchFileContent lib fs path keyword config textParser \<noteq> None \<Longrightarrow>
   fst (content_walkFn lib fs keyword config textParser path arg results) \<in> {RetNil, SkipDir}"
proof -
  assume "\<forall>path. searchFileContent lib fs path keyword config textParser \<noteq> None"
  then obtain fileInfo found where
    "searchFileContent lib fs path keyword config textParser = Some (fileInfo, found)"
    by fastforce
  then show ?thesis
    by (auto simp: content_walkFn_def split: sum.splits)
qed

lemma searchFileContent_no_panic:
  assumes c0: "0 \<le> sint (ContextLines config)"
    and fit: "\<forall>path lines. GetFileLines lib fs textParser path = Inr lines
                \<longrightarrow> int (length lines) + sint (ContextLines config) < 2 ^ 63"
  shows "searchFileContent lib fs path keyword config textParser \<noteq> None"
proof (cases "os_Stat fs path")
  case (Inl err)
  then show ?thesis by (simp add: searchFileContent_def)
next
  case (Inr info)
  show ?thesis
  proof (cases "GetFileLines lib fs textParser path")
    case (Inl err)
    then show ?thesis using Inr by (simp add: searchFileContent_def)
  next
    case lines: (Inr lines)
    have "int (length lines) + sint (ContextLines config) < 2 ^ 63" using fit lines by blast
    then obtain ms where
      "SearchWithContext (lowerRune lib) (runes lib)
         (NewContextSearch (lowerRune lib) (runes lib keyword) (CaseSensitive config)
            (ContextLines config)) lines = Some ms"
      using aggregate_context_text_properties[OF c0] by blast
    then show ?thesis using Inr lines
      by (auto simp: searchFileContent_def split: prod.splits)
  qed
qed

lemma findByContentOnly_results:
  "findByContentOnly lib fs keyword config = (results, err) \<Longrightarrow>
   found_only lib fs keyword config (NewTextParser (MaxContentSize config)) results
   \<and> err \<in> {RetNil, Panicked}"
proof -
  let ?tp = "NewTextParser (MaxContentSize config)"
  let ?fn = "content_walkFn lib fs keyword config ?tp"
  assume r: "findByContentOnly lib fs keyword config = (results, err)"
  have "found_only lib fs keyword config ?tp (snd (Walk ?fn (walk_tree fs (StartDir config)) Map.empty))
        \<and> fst (Walk ?fn (walk_tree fs (StartDir config)) Map.empty)
            \<in> {RetNil, SkipDir, Panicked} - {SkipDir} \<union> {RetNil}"
  proof (rule Walk_invariant)
    show "RetNil \<in> {RetNil, SkipDir, Panicked}" by simp
    show "\<forall>path arg s. found_only lib fs keyword config ?tp s \<longrightarrow>
            found_only lib fs keyword config ?tp (snd (?fn path arg s))
            \<and> fst (?fn path arg s) \<in> {RetNil, SkipDir, Panicked}"
      using content_walkFn_step by blast
    show "found_only lib fs keyword config ?tp Map.empty" by (simp add: found_only_def)
  qed
  then show ?thesis using r by (auto simp: findByContentOnly_def split: prod.splits)
qed

lemma findByContentOnly_no_panic:
  assumes np: "\<forall>path. searchFileContent lib fs path keyword config
                         (NewTextParser (MaxContentSize config)) \<noteq> None"
  shows "snd (findByContentOnly lib fs keyword config) = RetNil"
proof -
  let ?tp = "NewTextParser (MaxContentSize config)"
  let ?fn = "content_walkFn lib fs keyword config ?tp"
  have "True \<and> fst (Walk ?fn (walk_tree fs (StartDir config)) Map.empty)
            \<in> {RetNil, SkipDir} - {SkipDir} \<union> {RetNil}"
  proof (rule Walk_invariant[where I = "\<lambda>s. True"])
    show "RetNil \<in> {RetNil, SkipDir}" by simp
    show "\<forall>path arg s. True \<longrightarrow> True \<and> fst (?fn path arg s) \<in> {RetNil, SkipDir}"
      using content_walkFn_step_no_panic[OF np] by blast
    show True ..
  qed
  then show ?thesis by (auto simp: findByContentOnly_def split: prod.splits)
qed

text \<open>
  Claim C9 (as amended).  In a content-mode search whose \<open>contextLines\<close> is not negative
  and does not overflow when added to the line count of a file, every binary file (a NUL
  byte among its first 512 bytes) is excluded from the result mapping and no error is
  raised to the caller: \<open>searchFileContent\<close> reports the file as not found, the callback of
  the walk returns \<open>nil\<close> at it and leaves the result map as it is, the search over the
  remaining files completes, and \<open>FindFilesByKeyword\<close> returns the result of the content
  walk with a \<open>nil\<close> error.
\<close>

theorem binary_file_excluded_without_error:
  "os_File fs p = Bytes data \<Longrightarrow> CHR 0x00 \<in> set (take 512 data) \<Longrightarrow>
   SearchMode config = ''content'' \<Longrightarrow>
   0 \<le> sint (ContextLines config) \<Longrightarrow>
   (\<forall>path lines. GetFileLines lib fs (NewTextParser (MaxContentSize config)) path = Inr lines
        \<longrightarrow> int (length lines) + sint (ContextLines config) < 2 ^ 63) \<Longrightarrow>
   FindFilesByKeyword lib fs delivered batches now names idx keyword config = (results, err, idx1) \<Longrightarrow>
   results p = None
   \<and> err = RetNil
   \<and> findByContentOnly lib fs keyword config = (results, err)
   \<and> searchFileContent lib fs p keyword config (NewTextParser (MaxContentSize config))
       = Some (FileInfo_zero, False)
   \<and> (\<forall>info rs. \<not> st_IsDir info \<longrightarrow>
         content_walkFn lib fs keyword config (NewTextParser (MaxContentSize config)) p (Inr info) rs
           = (RetNil, rs))"
proof -
  let ?tp = "NewTextParser (MaxContentSize config)"
  assume f: "os_File fs p = Bytes data" and z: "CHR 0x00 \<in> set (take 512 data)"
    and mode: "SearchMode config = ''content''"
    and c0: "0 \<le> sint (ContextLines config)"
    and fit: "\<forall>path lines. GetFileLines lib fs ?tp path = Inr lines
                \<longrightarrow> int (length lines) + sint (ContextLines config) < 2 ^ 63"
    and r: "FindFilesByKeyword lib fs delivered batches now names idx keyword config
            = (results, err, idx1)"
  have b: "fst (if GlobalSearch config \<or> fileIndices idx = Map.empty
                then BuildIndex lib fs delivered batches now idx (StartDir config) config
                else (RetNil, idx)) = RetNil"
    by (simp add: BuildIndex_no_error)
  have c: "findByContentOnly lib fs keyword config = (results, err)"
    using r b mode by (auto simp: FindFilesByKeyword_def split: prod.splits)
  have fo: "found_only lib fs keyword config ?tp results"
    using findByContentOnly_results[OF c] by auto
  have sb: "searchFileContent lib fs p keyword config ?tp = Some (FileInfo_zero, False)"
    using f z by (rule searchFileContent_binary)
  have 1: "results p = None"
    using fo sb by (auto simp: found_only_def)
  have 2: "err = RetNil"
    using findByContentOnly_no_panic[of lib fs keyword config]
      searchFileContent_no_panic[OF c0 fit] c
    by auto
  have 3: "\<forall>info rs. \<not> st_IsDir info \<longrightarrow>
         content_walkFn lib fs keyword config ?tp p (Inr info) rs = (RetNil, rs)"
    using content_walkFn_binary[OF f z] by blast
  show ?thesis using 1 2 c sb 3 by blast
qed

lemma example_lines_fit:
  "\<forall>path lines. GetFileLines ascii_lib example_fs
                    (NewTextParser (MaxContentSize example_content_config)) path = Inr lines
        \<longrightarrow> int (length lines) + sint (ContextLines example_content_config) < 2 ^ 63"
proof (intro allI impI)
  fix path lines
  let ?tp = "NewTextParser (MaxContentSize example_content_config)"
  assume g: "GetFileLines ascii_lib example_fs ?tp path = Inr lines"
  have other: "GetFileLines ascii_lib example_fs ?tp q = Inl ErrNotExist"
    if "q \<noteq> ''docs''" "q \<noteq> ''docs/blob''" "q \<noteq> ''docs/flag.txt''" "q \<noteq> ''docs/flagdir''" for q
    using that by (simp add: GetFileLines_def ParseFile_def example_fs_def)
  have 1: "GetFileLines ascii_lib example_fs ?tp ''docs'' = Inl ErrBinaryLines" by code_simp
  have 2: "GetFileLines ascii_lib example_fs ?tp ''docs/blob'' = Inl ErrBinaryLines" by code_simp
  have 3: "GetFileLines ascii_lib example_fs ?tp ''docs/flagdir'' = Inl ErrBinaryLines" by code_simp
  have 4: "GetFileLines ascii_lib example_fs ?tp ''docs/flag.txt''
           = Inr [''ok'', ''ERROR: bad'', ''ok'']" by code_simp
  have "path = ''docs/flag.txt''" using g other 1 2 3 by (metis sum.distinct(1))
  then have "lines = [''ok'', ''ERROR: bad'', ''ok'']" using g 4 by simp
  then show "int (length lines) + sint (ContextLines example_content_config) < 2 ^ 63"
    by (simp add: example_content_config_def)
qed

theorem binary_file_excluded_without_error_witness:
  "os_File example_fs ''docs/blob'' = Bytes [CHR ''a'', CHR 0x00, CHR ''b'']
   \<and> CHR 0x00 \<in> set (take 512 [CHR ''a'', CHR 0x00, CHR ''b''])
   \<and> SearchMode example_content_config = ''content''
   \<and> 0 \<le> sint (ContextLines example_content_config)
   \<and> GetFileLines ascii_lib example_fs (NewTextParser (MaxContentSize example_content_config))
         ''docs/flag.txt'' = Inr [''ok'', ''ERROR: bad'', ''ok'']
   \<and> int (length [''ok'', ''ERROR: bad'', ''ok'']) + sint (ContextLines example_content_config)
       < 2 ^ 63
   \<and> fst (FindFilesByKeyword ascii_lib example_fs (\<lambda>p. True) (\<lambda>sent. [sent]) 200 []
              GetIndexer_initial ''ERROR'' example_content_config) ''docs/blob'' = None
   \<and> fst (snd (FindFilesByKeyword ascii_lib example_fs (\<lambda>p. True) (\<lambda>sent. [sent]) 200 []
              GetIndexer_initial ''ERROR'' example_content_config)) = RetNil
   \<and> fst (FindFilesByKeyword ascii_lib example_fs (\<lambda>p. True) (\<lambda>sent. [sent]) 200 []
              GetIndexer_initial ''ERROR'' example_content_config) ''docs/flag.txt'' \<noteq> None"
proof -
  let ?X = "FindFilesByKeyword ascii_lib example_fs (\<lambda>p. True) (\<lambda>sent. [sent]) 200 []
              GetIndexer_initial ''ERROR'' example_content_config"
  have f: "os_File example_fs ''docs/blob'' = Bytes [CHR ''a'', CHR 0x00, CHR ''b'']"
    by (simp add: example_fs_def)
  have z: "CHR 0x00 \<in> set (take 512 [CHR ''a'', CHR 0x00, CHR ''b''])" by simp
  have mode: "SearchMode example_content_config = ''content''"
    by (simp add: example_content_config_def)
  have c0: "0 \<le> sint (ContextLines example_content_config)"
    by (simp add: example_content_config_def)
  have r: "?X = (fst ?X, fst (snd ?X), snd (snd ?X))" by simp
  have found: "fst (findByContentOnly ascii_lib example_fs ''ERROR'' example_content_config)
                 ''docs/flag.txt'' \<noteq> None"
    by code_simp
  have t: "fst ?X ''docs/blob'' = None \<and> fst (snd ?X) = RetNil
           \<and> findByContentOnly ascii_lib example_fs ''ERROR'' example_content_config
               = (fst ?X, fst (snd ?X))"
    using binary_file_excluded_without_error [OF f z mode c0 example_lines_fit r] by blast
  then have 3: "fst ?X ''docs/flag.txt'' \<noteq> None" using found by simp
  have g: "GetFileLines ascii_lib example_fs (NewTextParser (MaxContentSize example_content_config))
         ''docs/flag.txt'' = Inr [''ok'', ''ERROR: bad'', ''ok'']"
    by code_simp
  have l: "int (length [''ok'', ''ERROR: bad'', ''ok'']) + sint (ContextLines example_content_config)
       < 2 ^ 63"
    by (simp add: example_content_config_def)
  show ?thesis using t 3 c0 g l f z mode by blast
qed

text \<open>
  The claim as stated, for every configuration, fails for a negative \<open>contextLines\<close>: with
  \<open>contextLines = -1\<close> the binary file \<open>docs/blob\<close> is skipped, but the match in
  \<open>docs/flag.txt\<close>, on line 2 of 3, makes \<open>getContext\<close> compute \<open>start = 2\<close> and \<open>end = 1\<close>;
  \<open>make([]string, -1)\<close> panics, the search does not complete and \<open>FindFilesByKeyword\<close>
  returns nothing, neither a result map nor a \<open>nil\<close> error.
\<close>

theorem binary_file_negative_context_counterexample:
  "os_File example_fs ''docs/blob'' = Bytes [CHR ''a'', CHR 0x00, CHR ''b'']
   \<and> CHR 0x00 \<in> set (take 512 [CHR ''a'', CHR 0x00, CHR ''b''])
   \<and> SearchMode (example_content_config\<lparr>ContextLines := - 1\<rparr>) = ''content''
   \<and> fst (snd (FindFilesByKeyword ascii_lib example_fs (\<lambda>p. True) (\<lambda>sent. [sent]) 200 []
              GetIndexer_initial ''ERROR'' (example_content_config\<lparr>ContextLines := - 1\<rparr>)))
       = Panicked"
proof -
  let ?cfg = "example_content_config\<lparr>ContextLines := - 1\<rparr>"
  let ?X = "FindFilesByKeyword ascii_lib example_fs (\<lambda>p. True) (\<lambda>sent. [sent]) 200 []
              GetIndexer_initial ''ERROR'' ?cfg"
  have f: "os_File example_fs ''docs/blob'' = Bytes [CHR ''a'', CHR 0x00, CHR ''b'']"
    by (simp add: example_fs_def)
  have mode: "SearchMode ?cfg = ''content''"
    by (simp add: example_content_config_def)
  have p: "snd (findByContentOnly ascii_lib example_fs ''ERROR'' ?cfg) = Panicked"
    by code_simp
  obtain i where "BuildIndex ascii_lib example_fs (\<lambda>p. True) (\<lambda>sent. [sent]) 200
                    GetIndexer_initial (StartDir ?cfg) ?cfg = (RetNil, i)"
    using BuildIndex_no_error by (metis prod.collapse)
  then have "fst (snd ?X) = snd (findByContentOnly ascii_lib example_fs ''ERROR'' ?cfg)"
    using mode by (simp add: FindFilesByKeyword_def GetIndexer_initial_def split: prod.splits)
  then show ?thesis using f mode p by simp
qed

section \<open>The referential invariant of the index\<close>

lemma flush_cache_invariant:
  "index_invariant tf tn \<Longrightarrow> flush_cache (tf, tn) batch = (tf', tn') \<Longrightarrow> index_invariant tf' tn'"
proof (induction batch arbitrary: tf tn)
  case Nil
  then show ?case by simp
next
  case (Cons v rest)
  have "index_invariant (tf(Path v \<mapsto> v)) (append_at tn (Name v) (Path v))"
    unfolding index_invariant_def
  proof (intro allI impI ballI)
    fix name paths path
    assume a: "append_at tn (Name v) (Path v) name = Some paths" and p: "path \<in> set paths"
    show "(tf(Path v \<mapsto> v)) path \<noteq> None"
    proof (cases "name = Name v")
      case False
      then have "tn name = Some paths" using a by (simp add: append_at_def)
      then have "tf path \<noteq> None" using Cons.prems(1) p by (auto simp: index_invariant_def)
      then show ?thesis by simp
    next
      case True
      show ?thesis
      proof (cases "tn (Name v)")
        case None
        then have "paths = [Path v]" using a True by (simp add: append_at_def)
        then show ?thesis using p by simp
      next
        case (Some old)
        then have "paths = old @ [Path v]" using a True by (simp add: append_at_def)
        then have "path = Path v \<or> path \<in> set old" using p by auto
        moreover have "\<forall>q \<in> set old. tf q \<noteq> None"
          using Cons.prems(1) Some by (auto simp: index_invariant_def)
        ultimately show ?thesis by auto
      qed
    qed
  qed
  then show ?case using Cons.IH Cons.prems(2) by simp
qed

lemma index_step_invariant:
  "index_step s s' \<Longrightarrow> system_invariant s \<Longrightarrow> system_invariant s'"
proof (induction rule: index_step.induct)
  case (build_start s b)
  then show ?case by (auto simp: system_invariant_def index_invariant_def)
next
  case (worker_flush s b temp localCache)
  obtain tf tn where t: "temp = (tf, tn)" by (cases temp)
  obtain tf' tn' where f: "flush_cache (tf, tn) localCache = (tf', tn')" by fastforce
  have "index_invariant tf tn" using worker_flush t by (auto simp: system_invariant_def)
  then have "index_invariant tf' tn'" using f by (rule flush_cache_invariant)
  then show ?case using worker_flush t f by (auto simp: system_invariant_def)
next
  case (build_replace s b tempFileIndices tempNameIndices now)
  then show ?case by (auto simp: system_invariant_def)
next
  case (build_error s b temp)
  then show ?case by (auto simp: system_invariant_def)
next
  case (search_refresh s path fileIndex info)
  then show ?case by (auto simp: system_invariant_def index_invariant_def)
qed

lemma example_system_reachable: "index_step\<^sup>*\<^sup>* System_initial example_system"
proof -
  let ?fi = "FileIndex_of ''docs/flag.txt'' example_text"
  let ?s1 = "System_initial\<lparr>builds := (builds System_initial)(0 \<mapsto> (Map.empty, Map.empty))\<rparr>"
  let ?s2 = "?s1\<lparr>builds := (builds ?s1)(0 \<mapsto> flush_cache (Map.empty, Map.empty) [?fi])\<rparr>"
  let ?s3 = "?s2\<lparr>indexer := (indexer ?s2)\<lparr>fileIndices := [''docs/flag.txt'' \<mapsto> ?fi],
                 nameIndices := [''flag.txt'' \<mapsto> [''docs/flag.txt'']], lastUpdate := 200\<rparr>,
               builds := (builds ?s2)(0 := None)\<rparr>"
  have 1: "index_step System_initial ?s1"
    by (rule index_step.build_start) (simp add: System_initial_def)
  have 2: "index_step ?s1 ?s2"
    by (rule index_step.worker_flush) simp
  have 3: "index_step ?s2 ?s3"
    by (rule index_step.build_replace)
       (simp add: append_at_def FileIndex_of_def example_text_def)
  have "?s3 = example_system"
    by (simp add: example_system_def System_initial_def GetIndexer_initial_def)
  then have "index_step ?s2 example_system" using 3 by simp
  then show ?thesis
    using 1 2 by (meson rtranclp.rtrancl_into_rtrancl rtranclp.rtrancl_refl)
qed

text \<open>
  Claim C3.  In every state that the system reaches by critical sections of any number of
  concurrent \<open>BuildIndex\<close> runs and of \<open>Search\<close>, and so in every state that a reader
  holding the index lock observes, every path in a value list of \<open>nameIndices\<close> is a key of
  \<open>fileIndices\<close>.
\<close>

theorem index_invariant_reachable:
  "index_step\<^sup>*\<^sup>* System_initial s \<Longrightarrow>
   index_invariant (fileIndices (indexer s)) (nameIndices (indexer s))"
proof -
  assume "index_step\<^sup>*\<^sup>* System_initial s"
  then have "system_invariant s"
  proof (induction rule: rtranclp_induct)
    case base
    show ?case
      by (simp add: system_invariant_def System_initial_def GetIndexer_initial_def
          index_invariant_def)
  next
    case (step y z)
    then show ?case using index_step_invariant by blast
  qed
  then show ?thesis by (simp add: system_invariant_def)
qed

theorem index_invariant_reachable_witness:
  "index_step\<^sup>*\<^sup>* System_initial example_system
   \<and> index_invariant (fileIndices (indexer example_system)) (nameIndices (indexer example_system))
   \<and> nameIndices (indexer example_system) ''flag.txt'' = Some [''docs/flag.txt'']
   \<and> fileIndices (indexer example_system) ''docs/flag.txt'' \<noteq> None"
  using index_invariant_reachable [OF example_system_reachable] example_system_reachable
  by (simp add: example_system_def)

end
